theory Spec2Isabelle
  imports Complex_Main
begin

section \<open>Data model of \<open>off_magent_model.py\<close>\<close>

text \<open>
  The rollout \<open>MA_CB_RP_Major.forward\<close> works on batched tensors. A tensor of shape
  (batch, features, stations) is a list of instances, each a list of rows (channels), each
  a list of station values. The candidate masks and the activity masks have shape
  (batch, stations) and are built from \<open>torch.ones\<close> and assignments of 0 and 1; their
  entries are natural numbers here. A decision-queue entry is the two-element Python list
  \<open>[scheduled_time, agent_id]\<close>.

  The source writes every per-agent variable ten times (\<open>dynamic1\<close> .. \<open>dynamic10\<close>,
  \<open>mask1\<close> .. \<open>mask10\<close>, \<open>agent_mask1\<close> .. \<open>agent_mask10\<close>) and every per-agent
  block ten times (\<open>if ag_id == 1:\<close> .. \<open>if ag_id == 10:\<close>); the ten copies differ only
  in the digit. The model keeps each family as a list of length ten, the variable numbered
  \<open>k\<close> at position \<open>k - 1\<close>, and writes each block once with the agent id as an argument.
\<close>

type_synonym tensor = "real list list list"
type_synonym mask = "nat list list"
type_synonym entry = "real \<times> nat"

datatype error = ValueError | IndexError | TypeError | RuntimeError | KeyError

definition bind_err :: "error + 'a \<Rightarrow> ('a \<Rightarrow> error + 'b) \<Rightarrow> error + 'b" where
  "bind_err m f = (case m of Inl e \<Rightarrow> Inl e | Inr x \<Rightarrow> f x)"

text \<open>A Python \<open>for\<close> loop whose body may raise: the first exception ends the loop.\<close>

fun fold_err :: "('a \<Rightarrow> 's \<Rightarrow> error + 's) \<Rightarrow> 'a list \<Rightarrow> 's \<Rightarrow> error + 's" where
  "fold_err f [] s = Inr s"
| "fold_err f (x # xs) s = (case f x s of Inl e \<Rightarrow> Inl e | Inr s' \<Rightarrow> fold_err f xs s')"

text \<open>\<open>range(lo, hi)\<close> for agent ids; \<open>hi\<close> is a Python int and may be negative.\<close>

definition py_range :: "nat \<Rightarrow> int \<Rightarrow> nat list" where
  "py_range lo hi = [lo ..< nat hi]"

text \<open>A loop that builds one result per element, in order; the first exception ends it.\<close>

fun map_err :: "('a \<Rightarrow> error + 'b) \<Rightarrow> 'a list \<Rightarrow> error + 'b list" where
  "map_err f [] = Inr []"
| "map_err f (x # xs) =
     (case f x of Inl e \<Rightarrow> Inl e
      | Inr y \<Rightarrow> (case map_err f xs of Inl e \<Rightarrow> Inl e | Inr ys \<Rightarrow> Inr (y # ys)))"

text \<open>Indexing raises IndexError out of range; the indices used are never negative.\<close>

definition nth_err :: "'a list \<Rightarrow> nat \<Rightarrow> error + 'a" where
  "nth_err xs i = (if i < length xs then Inr (xs ! i) else Inl IndexError)"

definition item3 :: "tensor \<Rightarrow> nat \<Rightarrow> nat \<Rightarrow> nat \<Rightarrow> error + real" where
  "item3 t i r c =
     bind_err (nth_err t i) (\<lambda>inst. bind_err (nth_err inst r) (\<lambda>row. nth_err row c))"

text \<open>
  A dictionary filled by \<open>for a_id in range(1, self.agent_number): d[a_id] = v\<close>
  (lines 302-309 and 315-316).
\<close>

definition fill_dict :: "nat list \<Rightarrow> 'v \<Rightarrow> (nat \<rightharpoonup> 'v) \<Rightarrow> (nat \<rightharpoonup> 'v)" where
  "fill_dict ids v d = fold (\<lambda>a m. m(a \<mapsto> v)) ids d"

section \<open>The model object and the constructor\<close>

text \<open>
  The state of one rollout: the local variables of \<open>forward\<close> that live across ticks.
  \<open>dynamic\<close> is the Python list of that name (built at line 311, replaced by the result
  of \<open>update_od\<close> at line 359); \<open>dynamic_k\<close> holds \<open>dynamic1\<close> .. \<open>dynamic10\<close>,
  \<open>record_k\<close> holds \<open>record1\<close> .. \<open>record3\<close>, \<open>mask_k\<close> and \<open>agent_mask_k\<close> the
  ten candidate masks and the ten activity masks. \<open>tour_idx\<close> and \<open>tour_logp\<close> map an
  agent id to the list of the columns appended so far, one column (a value per instance)
  for each time the agent's block ran.
\<close>

record state =
  dynamic :: "tensor list"
  dynamic_k :: "tensor list"
  record_k :: "tensor list"
  decision_list :: "entry list list"
  decision_mask_dict :: "nat \<rightharpoonup> int list"
  mask_k :: "mask list"
  agent_mask_k :: "mask list"
  tw_mask :: "nat list list list"
  tour_idx :: "nat \<rightharpoonup> int list list"
  tour_logp :: "nat \<rightharpoonup> real list list"
  tour_idx_dict :: "nat \<rightharpoonup> int list list"
  decision_agent_id :: "nat list"

text \<open>
  The object \<open>self\<close>. The five collaborators are external (spec section 6) and are
  parameters; each may be \<open>None\<close>, the constructor's default. The arguments \<open>static\<close>,
  \<open>up_station\<close>, \<open>all_station\<close> and \<open>travel_time_G\<close> that the source hands to them
  unchanged at every call are not repeated in their types. The type \<open>'l\<close> is the value
  \<open>line_stop_tw\<close> that \<open>update_tw\<close> hands to \<open>update_fn\<close>.

  \<open>pointer\<close> stands for the encoders, the pointer network and the sampler
  (lines 509-517 and 521): for an agent id, the current state and an instance it gives the
  raw chosen index and its raw log-probability. It is floating-point and random and is
  not modelled further; a rejection-sampling loop that has not returned has no value here.
\<close>

record 'l self =
  agent_number :: int
  update_fn :: "(tensor \<Rightarrow> int list \<Rightarrow> tensor list \<Rightarrow> int list list \<Rightarrow> 'l
                  \<Rightarrow> tensor \<times> tensor list) option"
  mask_fn :: "(mask \<Rightarrow> tensor \<Rightarrow> mask \<Rightarrow> int list \<Rightarrow> mask \<times> mask) option"
  mask_start :: "(mask \<Rightarrow> tensor \<Rightarrow> nat list list list \<Rightarrow> mask \<Rightarrow> mask \<times> mask) option"
  update_tw :: "(tensor \<Rightarrow> int list \<Rightarrow> tensor list \<Rightarrow> nat \<Rightarrow> nat list list list
                  \<Rightarrow> tensor list \<times> 'l \<times> nat list list list) option"
  update_od :: "(tensor list \<Rightarrow> tensor list \<Rightarrow> nat list list list
                  \<Rightarrow> tensor list \<times> tensor list) option"
  training :: bool
  pointer :: "nat \<Rightarrow> state \<Rightarrow> nat \<Rightarrow> int \<times> real"

text \<open>
  \<open>MA_CB_RP_Major.__init__\<close> (lines 111-170). After \<open>super().__init__()\<close> the only test
  of the constructor's own is \<open>if dynamic_size < 1: raise ValueError\<close>. It then stores
  \<open>Agent_n\<close> and the five collaborators unchecked and builds the thirty-one torch
  sub-modules (\<open>CB_Encoder\<close>, \<open>CB_Agent\<close>) from the three sizes. Whether torch accepts
  the sizes is library behaviour and is the parameter \<open>torch_ok\<close>; a refusal by torch is
  reported as \<open>RuntimeError\<close>. A fresh \<open>nn.Module\<close> is in training mode.
\<close>

definition init_model ::
  "(int \<Rightarrow> int \<Rightarrow> int \<Rightarrow> bool) \<Rightarrow> (nat \<Rightarrow> state \<Rightarrow> nat \<Rightarrow> int \<times> real)
   \<Rightarrow> int \<Rightarrow> int \<Rightarrow> int \<Rightarrow> int
   \<Rightarrow> (tensor \<Rightarrow> int list \<Rightarrow> tensor list \<Rightarrow> int list list \<Rightarrow> 'l \<Rightarrow> tensor \<times> tensor list) option
   \<Rightarrow> (mask \<Rightarrow> tensor \<Rightarrow> mask \<Rightarrow> int list \<Rightarrow> mask \<times> mask) option
   \<Rightarrow> (mask \<Rightarrow> tensor \<Rightarrow> nat list list list \<Rightarrow> mask \<Rightarrow> mask \<times> mask) option
   \<Rightarrow> (tensor \<Rightarrow> int list \<Rightarrow> tensor list \<Rightarrow> nat \<Rightarrow> nat list list list
         \<Rightarrow> tensor list \<times> 'l \<times> nat list list list) option
   \<Rightarrow> (tensor list \<Rightarrow> tensor list \<Rightarrow> nat list list list \<Rightarrow> tensor list \<times> tensor list) option
   \<Rightarrow> error + 'l self" where
  "init_model torch_ok net static_size dynamic_size hidden_size Agent_n
              upd_fn msk_fn msk_start upd_tw upd_od =
     (if dynamic_size < 1 then Inl ValueError
      else if \<not> torch_ok static_size dynamic_size hidden_size then Inl RuntimeError
      else Inr \<lparr>agent_number = Agent_n, update_fn = upd_fn, mask_fn = msk_fn,
                mask_start = msk_start, update_tw = upd_tw, update_od = upd_od,
                training = True, pointer = net\<rparr>)"

section \<open>Action selection: the scheduling indicator\<close>

text \<open>
  Lines 512-523 (agent 1; the blocks of agents 2..10 are the same). The pointer network and
  the sampler are floating-point and random; what they deliver, the raw index \<open>ptr\<close> and the
  raw log-probability (\<open>m.log_prob(ptr)\<close> when training, \<open>prob.log()\<close> otherwise), is
  an input here. \<open>decision_mask_tensor\<close> is the agent's list of 0/1 indicators, one per
  instance. In training mode both are multiplied by it; in evaluation mode
  only \<open>ptr\<close> is, and \<open>logp = prob.log()\<close> is recorded as it is.
\<close>

definition apply_decision_mask ::
  "bool \<Rightarrow> int list \<Rightarrow> real list \<Rightarrow> int list \<Rightarrow> int list \<times> real list" where
  "apply_decision_mask is_training ptr logp decision_mask_tensor =
     (if is_training
      then (map2 (*) ptr decision_mask_tensor,
            map2 (\<lambda>l d. l * real_of_int d) logp decision_mask_tensor)
      else (map2 (*) ptr decision_mask_tensor, logp))"

section \<open>Depot fallback\<close>

text \<open>
  Lines 402-406 and 1308-1312: \<open>visit_mask = mask.sum(1).eq(0)\<close>; for every row flagged
  there, \<open>mask[row, 0] = 1\<close> and \<open>mask[row, 1:] = 0\<close>. Writing column 0 of a mask with
  no columns raises IndexError.
\<close>

definition depot_row :: "nat list \<Rightarrow> error + nat list" where
  "depot_row row =
     (if sum_list row = 0
      then (if row = [] then Inl IndexError else Inr (1 # replicate (length row - 1) 0))
      else Inr row)"

definition depot_fallback :: "mask \<Rightarrow> error + mask" where
  "depot_fallback m = map_err depot_row m"

section \<open>Initialisation of the rollout\<close>

text \<open>
  Lines 197-203: for every instance, one entry \<open>[dynamic0[a_idx-1][ns][7][0], a_idx]\<close>
  for each \<open>a_idx\<close> in \<open>range(1, self.agent_number)\<close>, then a stable sort by time.
\<close>

definition initial_queue :: "int \<Rightarrow> tensor list \<Rightarrow> nat \<Rightarrow> error + entry list" where
  "initial_queue Agent_n dynamic0 ns =
     map_err (\<lambda>a_idx. bind_err (nth_err dynamic0 (a_idx - 1))
                        (\<lambda>d. bind_err (item3 d ns 7 0) (\<lambda>t. Inr (t, a_idx))))
       (py_range 1 Agent_n)"

definition init_decision_list :: "int \<Rightarrow> tensor list \<Rightarrow> nat \<Rightarrow> error + entry list list" where
  "init_decision_list Agent_n dynamic0 batch_size =
     bind_err (map_err (initial_queue Agent_n dynamic0) [0..<batch_size])
       (\<lambda>dl. Inr (map (sort_key fst) dl))"

text \<open>
  Lines 228-285: \<open>torch.ones\<close>, then column 0 and the columns from \<open>len(up_station)\<close> on
  are set to 0 in the candidate masks and in \<open>tw_mask\<close>, column 0 alone in the activity
  masks. Writing column 0 of a tensor that has no column raises IndexError.
\<close>

definition init_mask_row :: "nat \<Rightarrow> nat \<Rightarrow> nat list" where
  "init_mask_row n_up n = map (\<lambda>c. if c = 0 \<or> n_up \<le> c then 0 else 1) [0..<n]"

definition init_agent_mask_row :: "nat \<Rightarrow> nat list" where
  "init_agent_mask_row n = map (\<lambda>c. if c = 0 then 0 else 1) [0..<n]"

definition init_state ::
  "int \<Rightarrow> nat \<Rightarrow> nat \<Rightarrow> nat \<Rightarrow> nat \<Rightarrow> tensor list \<Rightarrow> tensor list \<Rightarrow> error + state" where
  "init_state Agent_n batch_size sequence_size n_up n_all dyn_in rec_in =
     (if \<not> (length dyn_in = 10 \<and> length rec_in = 3) then Inl TypeError
      else bind_err (init_decision_list Agent_n dyn_in batch_size) (\<lambda>dl.
        if sequence_size = 0 \<or> n_all = 0 then Inl IndexError
        else Inr \<lparr>dynamic = dyn_in, dynamic_k = dyn_in, record_k = rec_in,
                  decision_list = dl,
                  decision_mask_dict =
                    fill_dict (py_range 1 Agent_n) (replicate batch_size 0) Map.empty,
                  mask_k = replicate 10 (replicate batch_size (init_mask_row n_up sequence_size)),
                  agent_mask_k =
                    replicate 10 (replicate batch_size (init_agent_mask_row sequence_size)),
                  tw_mask = replicate batch_size (replicate 3 (init_mask_row n_up n_all)),
                  tour_idx = fill_dict (py_range 1 Agent_n) [] Map.empty,
                  tour_logp = fill_dict (py_range 1 Agent_n) [] Map.empty,
                  tour_idx_dict =
                    fill_dict (py_range 1 Agent_n) (replicate batch_size []) Map.empty,
                  decision_agent_id = []\<rparr>))"

text \<open>
  The ten tensors \<open>dynamic1\<close> .. \<open>dynamic10\<close> and the three records are positional
  arguments of \<open>forward\<close>; a call with another number of them is a TypeError.
  \<open>batch_size\<close> and \<open>sequence_size\<close> are the sizes of \<open>static\<close>, \<open>n_up\<close> is
  \<open>len(up_station)\<close> and \<open>n_all\<close> is \<open>len(all_station)\<close>.
\<close>

section \<open>Cohort extraction (lines 315-355)\<close>

text \<open>
  Lines 330-331 and 344-345: \<open>decision_mask_dict[id][ns0] = 1\<close> and
  \<open>decision_list[ns0].remove(entry)\<close>.
\<close>

definition flag_scheduled ::
  "(nat \<rightharpoonup> int list) \<Rightarrow> nat \<Rightarrow> nat \<Rightarrow> error + (nat \<rightharpoonup> int list)" where
  "flag_scheduled dmd a ns0 =
     (case dmd a of None \<Rightarrow> Inl KeyError
      | Some v \<Rightarrow> if ns0 < length v then Inr (dmd(a \<mapsto> v[ns0 := 1])) else Inl IndexError)"

definition remove_entry :: "entry list list \<Rightarrow> nat \<Rightarrow> entry \<Rightarrow> error + entry list list" where
  "remove_entry dl ns0 e =
     bind_err (nth_err dl ns0)
       (\<lambda>q. if e \<in> set q then Inr (dl[ns0 := remove1 e q]) else Inl ValueError)"

definition take_entry ::
  "nat \<Rightarrow> entry \<Rightarrow> (nat \<rightharpoonup> int list) \<times> entry list list
   \<Rightarrow> error + (nat \<rightharpoonup> int list) \<times> entry list list" where
  "take_entry ns0 e = (\<lambda>(dmd, dl).
     bind_err (flag_scheduled dmd (snd e) ns0) (\<lambda>dmd'.
     bind_err (remove_entry dl ns0 e) (\<lambda>dl'. Inr (dmd', dl'))))"

text \<open>
  Lines 332-341: \<open>dynamicK_cl0[ns0][5] = dynamic[id - 1][ns0][10].clone()\<close> for
  K = 1 .. 10. The source is row 10 of the entry of the list \<open>dynamic\<close> (index -1, for
  an id 0, is its last entry); the targets are the clones of \<open>dynamic1\<close> .. \<open>dynamic10\<close>. Assigning a row of another length raises
  RuntimeError unless it has length one, which torch broadcasts.
\<close>

definition copy_row :: "real list \<Rightarrow> real list \<Rightarrow> error + real list" where
  "copy_row src tgt =
     (if length src = length tgt then Inr src
      else if length src = 1 then Inr (replicate (length tgt) (src ! 0))
      else Inl RuntimeError)"

definition write_row5 :: "real list \<Rightarrow> nat \<Rightarrow> tensor \<Rightarrow> error + tensor" where
  "write_row5 src ns0 t =
     bind_err (nth_err t ns0) (\<lambda>inst.
     bind_err (nth_err inst 5) (\<lambda>old.
     bind_err (copy_row src old) (\<lambda>new. Inr (t[ns0 := inst[5 := new]]))))"

definition sync_row5 :: "tensor list \<Rightarrow> nat \<Rightarrow> nat \<Rightarrow> tensor list \<Rightarrow> error + tensor list" where
  "sync_row5 dyn a ns0 dcl =
     bind_err (if a = 0 then (if dyn = [] then Inl IndexError else Inr (last dyn))
               else nth_err dyn (a - 1)) (\<lambda>d.
     bind_err (nth_err d ns0) (\<lambda>inst.
     bind_err (nth_err inst 10) (\<lambda>src. map_err (write_row5 src ns0) dcl)))"

text \<open>
  The body of \<open>for ns0, ns0a in enumerate(cy_decision_list)\<close>: \<open>ns0a\<close> is the deep copy
  of the instance's queue. The head is taken when the queue is not empty; then every later
  entry whose time equals the head's is taken too.
\<close>

definition extract_instance ::
  "tensor list \<Rightarrow> nat \<times> entry list
   \<Rightarrow> (nat \<rightharpoonup> int list) \<times> entry list list \<times> tensor list
   \<Rightarrow> error + (nat \<rightharpoonup> int list) \<times> entry list list \<times> tensor list" where
  "extract_instance dyn = (\<lambda>(ns0, ns0a) (dmd, dl, dcl).
     case ns0a of [] \<Rightarrow> Inr (dmd, dl, dcl)
     | e0 # rest \<Rightarrow>
         bind_err (take_entry ns0 e0 (dmd, dl)) (\<lambda>st1.
         bind_err (sync_row5 dyn (snd e0) ns0 dcl) (\<lambda>dcl1.
         bind_err (fold_err (\<lambda>e st. if fst e = fst e0 then take_entry ns0 e st else Inr st)
                     rest st1) (\<lambda>st2.
         Inr (fst st2, snd st2, dcl1)))))"

definition update_decision_time :: "int \<Rightarrow> nat \<Rightarrow> state \<Rightarrow> error + state" where
  "update_decision_time Agent_n batch_size s =
     bind_err (fold_err (extract_instance (dynamic s)) (enumerate 0 (decision_list s))
                 (fill_dict (py_range 1 Agent_n) (replicate batch_size 0) (decision_mask_dict s),
                  decision_list s, dynamic_k s))
       (\<lambda>(dmd, dl, dcl).
          Inr (s\<lparr>decision_mask_dict := dmd, decision_list := dl, dynamic_k := dcl\<rparr>))"

section \<open>The world update and the termination test (lines 356-394)\<close>

text \<open>
  \<open>dynamic, constraint = self.update_od(...)\<close>, then \<open>dynamicK = dynamic[K-1]\<close> for
  K = 1 .. 10 and \<open>recordJ = constraint[J-1]\<close> for J = 1 .. 3. Calling a collaborator
  that is \<open>None\<close> raises TypeError.
\<close>

definition run_update_od :: "'l self \<Rightarrow> state \<Rightarrow> error + state" where
  "run_update_od slf s =
     (case update_od slf of None \<Rightarrow> Inl TypeError
      | Some f \<Rightarrow>
          (case f (dynamic_k s) (record_k s) (tw_mask s) of (dyn, con) \<Rightarrow>
             if length dyn < 10 \<or> length con < 3 then Inl IndexError
             else Inr (s\<lparr>dynamic := dyn, dynamic_k := take 10 dyn, record_k := take 3 con\<rparr>)))"

text \<open>
  Lines 389-394: \<open>mask_judge_x = agent_mask1 + ... + agent_mask10\<close>, always the ten
  activity masks, whatever \<open>self.agent_number\<close> is, and
  \<open>if not mask_judge.byte().any(): break\<close>. Adding masks of different shapes raises
  RuntimeError (torch's broadcasting of a dimension of size one is not modelled).
  \<open>.byte()\<close> casts every entry to an unsigned 8-bit integer, which keeps the entry
  modulo 256: an entry 256 becomes 0. The same cast is in the prune test of lines 400-401.
\<close>

definition add_mask :: "mask \<Rightarrow> mask \<Rightarrow> error + mask" where
  "add_mask a b =
     (if map length a = map length b then Inr (map2 (map2 (+)) a b) else Inl RuntimeError)"

definition mask_judge_x :: "mask list \<Rightarrow> error + mask" where
  "mask_judge_x ams =
     (case ams of [] \<Rightarrow> Inl IndexError
      | a # rest \<Rightarrow> fold_err (\<lambda>b acc. add_mask acc b) rest a)"

definition byte_any :: "mask \<Rightarrow> bool" where
  "byte_any m = list_ex (list_ex (\<lambda>v. v mod 256 \<noteq> 0)) m"

section \<open>Baseline mask refresh (lines 395-505 and 1303-1398)\<close>

text \<open>
  The block \<open>if ag_id == k:\<close>: \<open>mask_start\<close> for agent \<open>k\<close>, then the depot fallback.
  In the first loop of a tick (\<open>prune = True\<close>) the agent is also removed from
  \<open>decision_agent_id\<close> when the refreshed mask, cast to bytes, has no non-zero entry in the whole batch
  (lines 400-401); the loop after an agent's turn has no such lines. There is no block for
  an id above 10.
\<close>

definition refresh_mask :: "'l self \<Rightarrow> bool \<Rightarrow> nat \<Rightarrow> state \<Rightarrow> error + state" where
  "refresh_mask slf prune k s =
     (if k < 1 \<or> 10 < k then Inr s
      else case mask_start slf of None \<Rightarrow> Inl TypeError
      | Some f \<Rightarrow>
          (case f (mask_k s ! (k - 1)) (dynamic_k s ! (k - 1)) (tw_mask s)
                  (agent_mask_k s ! (k - 1)) of (m, am) \<Rightarrow>
             bind_err (depot_fallback m) (\<lambda>m'.
               Inr (s\<lparr>mask_k := (mask_k s)[k - 1 := m'],
                      agent_mask_k := (agent_mask_k s)[k - 1 := am],
                      decision_agent_id :=
                        (if prune \<and> \<not> byte_any m then remove1 k (decision_agent_id s)
                         else decision_agent_id s)\<rparr>))))"

section \<open>One agent's block (lines 507-589)\<close>

text \<open>Lines 525-533: \<open>update_tw\<close>, then \<open>recordJ = constraint[J-1]\<close> and the new \<open>tw_mask\<close>.\<close>

definition run_update_tw ::
  "'l self \<Rightarrow> tensor \<Rightarrow> int list \<Rightarrow> nat \<Rightarrow> state
   \<Rightarrow> error + tensor list \<times> 'l \<times> nat list list list" where
  "run_update_tw slf dyn_a ptr a_n s =
     (case update_tw slf of None \<Rightarrow> Inl TypeError
      | Some f \<Rightarrow>
          (case f dyn_a ptr (record_k s) a_n (tw_mask s) of (con, line_stop, tw) \<Rightarrow>
             if length con < 3 then Inl IndexError else Inr (take 3 con, line_stop, tw)))"

text \<open>Lines 535-547: \<open>update_fn\<close>, skipped when it is \<open>None\<close>.\<close>

definition run_update_fn ::
  "'l self \<Rightarrow> tensor \<Rightarrow> int list \<Rightarrow> tensor list \<Rightarrow> 'l \<Rightarrow> nat \<Rightarrow> state
   \<Rightarrow> error + tensor \<times> tensor list" where
  "run_update_fn slf dyn_a ptr recs line_stop a_n s =
     (case update_fn slf of None \<Rightarrow> Inr (dyn_a, recs)
      | Some f \<Rightarrow>
          (case tour_idx_dict s a_n of None \<Rightarrow> Inl KeyError
           | Some tid \<Rightarrow>
               (case f dyn_a ptr recs tid line_stop of (d, con) \<Rightarrow>
                  if length con < 3 then Inl IndexError else Inr (d, take 3 con))))"

text \<open>
  Lines 548-574: \<open>dynamicK[:, 1:4, 0:len(up_station)] = dynamic_a[:, 1:4, 0:len(up_station)]\<close>
  for each of the nine other K. \<open>boarding_slice n t\<close> is \<open>t[:, 1:4, 0:n]\<close>. The two slices
  must have one shape (RuntimeError otherwise; broadcasting is not modelled).
\<close>

definition boarding_slice :: "nat \<Rightarrow> tensor \<Rightarrow> tensor" where
  "boarding_slice n t = map (\<lambda>inst. map (take n) (take 3 (drop 1 inst))) t"

definition assign_boarding :: "nat \<Rightarrow> tensor \<Rightarrow> tensor \<Rightarrow> error + tensor" where
  "assign_boarding n src tgt =
     (if map (map length) (boarding_slice n tgt) = map (map length) (boarding_slice n src)
      then Inr (map2 (\<lambda>si ti. take 1 ti
                        @ map2 (\<lambda>sr tr. take n sr @ drop n tr)
                            (take 3 (drop 1 si)) (take 3 (drop 1 ti))
                        @ drop 4 ti) src tgt)
      else Inl RuntimeError)"

definition broadcast :: "nat \<Rightarrow> nat \<Rightarrow> tensor list \<Rightarrow> error + tensor list" where
  "broadcast n a_n dyns =
     bind_err (nth_err dyns (a_n - 1)) (\<lambda>src.
       map_err (\<lambda>(j, t). if j = a_n - 1 then Inr t else assign_boarding n src t)
         (enumerate 0 dyns))"

text \<open>
  Lines 575-577: \<open>if ptr[ns0] != 0: decision_list[ns0].append([dynamic_a[ns0][10][0], a_n])\<close>.
\<close>

definition push_decisions ::
  "nat \<Rightarrow> tensor \<Rightarrow> int list \<Rightarrow> entry list list \<Rightarrow> error + entry list list" where
  "push_decisions a_n dyn_a ptr dl =
     map_err (\<lambda>(ns0, q).
         bind_err (nth_err ptr ns0) (\<lambda>p.
           if p \<noteq> 0 then bind_err (item3 dyn_a ns0 10 0) (\<lambda>t. Inr (q @ [(t, a_n)]))
           else Inr q))
       (enumerate 0 dl)"

text \<open>Lines 583-587: \<open>mask_fn\<close>, skipped when it is \<open>None\<close>.\<close>

definition run_mask_fn ::
  "'l self \<Rightarrow> mask \<Rightarrow> tensor \<Rightarrow> mask \<Rightarrow> int list \<Rightarrow> mask \<times> mask" where
  "run_mask_fn slf m dyn_a am ptr =
     (case mask_fn slf of None \<Rightarrow> (m, am) | Some f \<Rightarrow> f m dyn_a am ptr)"

text \<open>
  The whole block \<open>if a_n == k:\<close>. The column \<open>ptr\<close> and the column \<open>logp\<close> are appended
  to \<open>tour_idx[a_n]\<close> and \<open>tour_logp[a_n]\<close> (lines 578-579) for the whole batch at once;
  \<open>tour_idx_dict[a_n][ns1]\<close> gets the index only where it is not 0 (lines 580-582).
\<close>

definition agent_block :: "'l self \<Rightarrow> nat \<Rightarrow> nat \<Rightarrow> nat \<Rightarrow> state \<Rightarrow> error + state" where
  "agent_block slf batch_size n_up a_n s =
     (case decision_mask_dict s a_n of None \<Rightarrow> Inl KeyError
      | Some dmt \<Rightarrow>
     (case apply_decision_mask (training slf)
             (map (\<lambda>i. fst (pointer slf a_n s i)) [0..<batch_size])
             (map (\<lambda>i. snd (pointer slf a_n s i)) [0..<batch_size]) dmt of (ptr, logp) \<Rightarrow>
        bind_err (nth_err (dynamic_k s) (a_n - 1)) (\<lambda>dyn_a.
        bind_err (run_update_tw slf dyn_a ptr a_n s) (\<lambda>(recs1, line_stop, tw).
        bind_err (run_update_fn slf dyn_a ptr recs1 line_stop a_n s) (\<lambda>(dyn_a', recs2).
        bind_err (broadcast n_up a_n ((dynamic_k s)[a_n - 1 := dyn_a'])) (\<lambda>dyns.
        bind_err (push_decisions a_n dyn_a' ptr (decision_list s)) (\<lambda>dl.
        (case tour_logp s a_n of None \<Rightarrow> Inl KeyError
         | Some lps \<Rightarrow>
        (case tour_idx s a_n of None \<Rightarrow> Inl KeyError
         | Some idxs \<Rightarrow>
        (case tour_idx_dict s a_n of None \<Rightarrow> Inl KeyError
         | Some tid \<Rightarrow>
        (case run_mask_fn slf (mask_k s ! (a_n - 1)) dyn_a'
                (agent_mask_k s ! (a_n - 1)) ptr of (m, am) \<Rightarrow>
           Inr (s\<lparr>dynamic_k := dyns, record_k := recs2, tw_mask := tw,
                  decision_list := dl,
                  tour_logp := (tour_logp s)(a_n \<mapsto> lps @ [logp]),
                  tour_idx := (tour_idx s)(a_n \<mapsto> idxs @ [ptr]),
                  tour_idx_dict := (tour_idx_dict s)(a_n \<mapsto>
                     map2 (\<lambda>p l. if p \<noteq> 0 then l @ [p] else l) ptr tid),
                  mask_k := (mask_k s)[a_n - 1 := m],
                  agent_mask_k := (agent_mask_k s)[a_n - 1 := am]\<rparr>))))))))))))"

section \<open>The tick loop and the return value\<close>

text \<open>
  One pass of \<open>for a_n in decision_agent_id\<close>: the agent's block, if there is one for
  the id, then the refresh of every later agent (\<open>range(a_n+1, self.agent_number)\<close>).
\<close>

definition agent_turn :: "'l self \<Rightarrow> nat \<Rightarrow> nat \<Rightarrow> nat \<Rightarrow> state \<Rightarrow> error + state" where
  "agent_turn slf batch_size n_up a_n s =
     bind_err (if 1 \<le> a_n \<and> a_n \<le> 10 then agent_block slf batch_size n_up a_n s else Inr s)
       (\<lambda>s1. fold_err (refresh_mask slf False) (py_range (a_n + 1) (agent_number slf)) s1)"

text \<open>
  One pass of \<open>for _ in range(max_steps)\<close>. The result is \<open>(True, s)\<close> when the pass
  ends in \<open>break\<close> and \<open>(False, s)\<close> when it runs to its end, where every queue is
  sorted again (lines 1399-1400).
\<close>

definition tick :: "'l self \<Rightarrow> nat \<Rightarrow> nat \<Rightarrow> state \<Rightarrow> error + bool \<times> state" where
  "tick slf batch_size n_up s =
     bind_err (update_decision_time (agent_number slf) batch_size s) (\<lambda>s1.
     bind_err (run_update_od slf s1) (\<lambda>s2.
     bind_err (mask_judge_x (agent_mask_k s2)) (\<lambda>mask_judge.
       if \<not> byte_any mask_judge
       then Inr (True, s2\<lparr>decision_agent_id := py_range 1 (agent_number slf)\<rparr>)
       else
         bind_err (fold_err (refresh_mask slf True) (py_range 1 (agent_number slf))
                     (s2\<lparr>decision_agent_id := py_range 1 (agent_number slf)\<rparr>)) (\<lambda>s3.
         bind_err (fold_err (agent_turn slf batch_size n_up) (decision_agent_id s3) s3) (\<lambda>s4.
           Inr (False, s4\<lparr>decision_list := map (sort_key fst) (decision_list s4)\<rparr>))))))"

fun run_ticks :: "'l self \<Rightarrow> nat \<Rightarrow> nat \<Rightarrow> nat \<Rightarrow> state \<Rightarrow> error + state" where
  "run_ticks slf batch_size n_up 0 s = Inr s"
| "run_ticks slf batch_size n_up (Suc n) s =
     (case tick slf batch_size n_up s of Inl e \<Rightarrow> Inl e
      | Inr (stop, s') \<Rightarrow> if stop then Inr s' else run_ticks slf batch_size n_up n s')"

text \<open>Line 310: \<open>max_steps = sequence_size if self.mask_fn is None else 1000\<close>.\<close>

definition max_steps :: "'l self \<Rightarrow> nat \<Rightarrow> nat" where
  "max_steps slf sequence_size = (case mask_fn slf of None \<Rightarrow> sequence_size | Some f \<Rightarrow> 1000)"

text \<open>
  Lines 1401-1406: \<open>torch.cat(columns, dim=1)\<close> for every id in
  \<open>range(1, self.agent_number)\<close>; \<open>torch.cat\<close> of an empty list raises RuntimeError.
  The result maps the id to a tensor of shape (batch, number of columns).
\<close>

definition cat_dim1 :: "nat \<Rightarrow> 'a list list \<Rightarrow> error + 'a list list" where
  "cat_dim1 batch_size cols =
     (if cols = [] then Inl RuntimeError
      else Inr (map (\<lambda>i. map (\<lambda>c. c ! i) cols) [0..<batch_size]))"

record result =
  out_tour_idx :: "nat \<rightharpoonup> int list list"
  out_tour_logp :: "nat \<rightharpoonup> real list list"
  out_record :: "tensor list"
  out_dynamic :: "tensor list"

definition cat_agent ::
  "nat \<Rightarrow> state \<Rightarrow> nat
   \<Rightarrow> (nat \<rightharpoonup> int list list) \<times> (nat \<rightharpoonup> real list list)
   \<Rightarrow> error + (nat \<rightharpoonup> int list list) \<times> (nat \<rightharpoonup> real list list)" where
  "cat_agent batch_size s a = (\<lambda>(ti, tl).
     case tour_idx s a of None \<Rightarrow> Inl KeyError
     | Some cols \<Rightarrow> bind_err (cat_dim1 batch_size cols) (\<lambda>x.
         case tour_logp s a of None \<Rightarrow> Inl KeyError
         | Some lcols \<Rightarrow> bind_err (cat_dim1 batch_size lcols) (\<lambda>y.
             Inr (ti(a \<mapsto> x), tl(a \<mapsto> y)))))"

definition finish :: "int \<Rightarrow> nat \<Rightarrow> state \<Rightarrow> error + result" where
  "finish Agent_n batch_size s =
     bind_err (fold_err (cat_agent batch_size s) (py_range 1 Agent_n) (Map.empty, Map.empty))
       (\<lambda>(ti, tl). Inr \<lparr>out_tour_idx = ti, out_tour_logp = tl,
                         out_record = record_k s, out_dynamic = dynamic_k s\<rparr>)"

definition forward ::
  "'l self \<Rightarrow> nat \<Rightarrow> nat \<Rightarrow> nat \<Rightarrow> nat \<Rightarrow> tensor list \<Rightarrow> tensor list \<Rightarrow> error + result" where
  "forward slf batch_size sequence_size n_up n_all dyn_in rec_in =
     bind_err (init_state (agent_number slf) batch_size sequence_size n_up n_all dyn_in rec_in)
       (\<lambda>s0.
     bind_err (run_ticks slf batch_size n_up (max_steps slf sequence_size) s0) (\<lambda>s.
       finish (agent_number slf) batch_size s))"

text \<open>
  The states at the end of the passes of the loop that ran to their end, in order: the
  loop of \<open>run_ticks\<close>, observed. After a pass, \<open>decision_mask_dict\<close> holds the
  scheduling indicators of that pass and \<open>decision_agent_id\<close> the agents whose block
  ran in it.
\<close>

fun tick_states :: "'l self \<Rightarrow> nat \<Rightarrow> nat \<Rightarrow> nat \<Rightarrow> state \<Rightarrow> state list" where
  "tick_states slf batch_size n_up 0 s = []"
| "tick_states slf batch_size n_up (Suc n) s =
     (case tick slf batch_size n_up s of Inl e \<Rightarrow> []
      | Inr (stop, s') \<Rightarrow> if stop then [] else s' # tick_states slf batch_size n_up n s')"

section \<open>Notions used in the statements\<close>

text \<open>
  The cohort of a queue: its head and every later entry with the head's time. The queue
  is sorted by time when a tick starts, so this is the set of entries with the minimal time.
\<close>

definition cohort :: "entry list \<Rightarrow> entry list" where
  "cohort q = (case q of [] \<Rightarrow> [] | e0 # rest \<Rightarrow> e0 # filter (\<lambda>e. fst e = fst e0) rest)"

text \<open>The flags of one agent after the entries \<open>es\<close> of instance \<open>i\<close> were taken.\<close>

definition flagged :: "entry list \<Rightarrow> nat \<Rightarrow> nat \<Rightarrow> int list \<Rightarrow> int list" where
  "flagged es i a v = (if a \<in> snd ` set es then v[i := 1] else v)"

text \<open>
  The row that line 332 reads for instance \<open>i\<close> when the head of the queue is agent
  \<open>a\<close>: \<open>dynamic[a - 1][i][10]\<close>, from the list \<open>dynamic\<close>.
\<close>

definition head_row10 :: "tensor list \<Rightarrow> nat \<Rightarrow> nat \<Rightarrow> real list" where
  "head_row10 dyn a i = (if a = 0 then last dyn else dyn ! (a - 1)) ! i ! 10"

text \<open>
  The number of columns appended so far to an agent's index list and log-probability list,
  and whether an agent's block ran in the tick that ended in a state (the agent is still
  in \<open>decision_agent_id\<close> then).
\<close>

definition ncols :: "state \<Rightarrow> nat \<Rightarrow> nat" where
  "ncols s a = (case tour_idx s a of None \<Rightarrow> 0 | Some cols \<Rightarrow> length cols)"

definition nlogp :: "state \<Rightarrow> nat \<Rightarrow> nat" where
  "nlogp s a = (case tour_logp s a of None \<Rightarrow> 0 | Some cols \<Rightarrow> length cols)"

definition acted :: "nat \<Rightarrow> state \<Rightarrow> bool" where
  "acted a s = (a \<in> set (decision_agent_id s))"

text \<open>
  What \<open>torch.cat(..., dim=1)\<close> gives for the lists of a state: one row per instance,
  as long as the agent's list of columns.
\<close>

definition catted :: "nat \<Rightarrow> state \<Rightarrow> (nat \<rightharpoonup> int list list) \<times> (nat \<rightharpoonup> real list list) \<Rightarrow> bool" where
  "catted bs s m =
     ((\<forall>a rows. fst m a = Some rows \<longrightarrow>
         length rows = bs \<and> (\<forall>row\<in>set rows. length row = ncols s a)) \<and>
      (\<forall>a rows. snd m a = Some rows \<longrightarrow>
         length rows = bs \<and> (\<forall>row\<in>set rows. length row = nlogp s a)))"



section \<open>A concrete rollout\<close>

text \<open>
  Inputs for evaluating the model: two instances and three stations, all of them boarding
  stations, so that stations 1 and 2 are open to every agent. In instance 0 agent \<open>k\<close>
  is first due at time \<open>k\<close>; in instance 1 every agent is first due at time 5
  (channel 7). The next decision time of agent \<open>k\<close> is \<open>k + 10\<close> (channel 10). The
  collaborators change nothing, \<open>update_fn\<close> and \<open>mask_fn\<close> are \<open>None\<close> (so the step
  cap is the station count, 3), and the network always picks station 1 with
  log-probability \<open>-1/2\<close>.
\<close>

definition torch_accepts :: "int \<Rightarrow> int \<Rightarrow> int \<Rightarrow> bool" where
  "torch_accepts a b c = (0 < a \<and> 0 < b \<and> 0 < c)"

definition ex_pointer :: "nat \<Rightarrow> state \<Rightarrow> nat \<Rightarrow> int \<times> real" where
  "ex_pointer a s i = (1, - 1 / 2)"

definition ex_mask_start :: "mask \<Rightarrow> tensor \<Rightarrow> nat list list list \<Rightarrow> mask \<Rightarrow> mask \<times> mask" where
  "ex_mask_start m d tw am = (m, am)"

definition ex_update_tw ::
  "tensor \<Rightarrow> int list \<Rightarrow> tensor list \<Rightarrow> nat \<Rightarrow> nat list list list
   \<Rightarrow> tensor list \<times> unit \<times> nat list list list" where
  "ex_update_tw d p c a tw = (c, (), tw)"

definition ex_update_od ::
  "tensor list \<Rightarrow> tensor list \<Rightarrow> nat list list list \<Rightarrow> tensor list \<times> tensor list" where
  "ex_update_od ds cs tw = (ds, cs)"

definition ex_self ::
  "int \<Rightarrow> bool \<Rightarrow> (mask \<Rightarrow> tensor \<Rightarrow> nat list list list \<Rightarrow> mask \<Rightarrow> mask \<times> mask)
   \<Rightarrow> (tensor \<Rightarrow> int list \<Rightarrow> tensor list \<Rightarrow> int list list \<Rightarrow> unit
        \<Rightarrow> tensor \<times> tensor list) option
   \<Rightarrow> unit self" where
  "ex_self Agent_n is_training msk_start upd_fn =
     \<lparr>agent_number = Agent_n, update_fn = upd_fn, mask_fn = None,
      mask_start = Some msk_start, update_tw = Some ex_update_tw,
      update_od = Some ex_update_od, training = is_training, pointer = ex_pointer\<rparr>"

definition ex_instance :: "real \<Rightarrow> real \<Rightarrow> real list list" where
  "ex_instance due next =
     [[0, 0, 0], [0, 0, 0], [0, 0, 0], [0, 0, 0], [0, 0, 0], [0, 0, 0], [0, 0, 0],
      [due, 0, 0], [0, 0, 0], [0, 0, 0], [next, 0, 0]]"

definition ex_dynamic :: "nat \<Rightarrow> tensor" where
  "ex_dynamic k = [ex_instance (real k) (real k + 10), ex_instance 5 (real k + 10)]"

definition ex_dynamics :: "tensor list" where
  "ex_dynamics = map ex_dynamic [1, 2, 3, 4, 5, 6, 7, 8, 9, 10]"

definition ex_records :: "tensor list" where
  "ex_records = [[[[0]], [[0]]], [[[0]], [[0]]], [[[0]], [[0]]]]"

text \<open>The state that \<open>init_state\<close> builds from these inputs for \<open>Agent_n = 3\<close>.\<close>

definition ex_state0 :: state where
  "ex_state0 =
     \<lparr>dynamic = ex_dynamics, dynamic_k = ex_dynamics, record_k = ex_records,
      decision_list = [[(1, 1), (2, 2)], [(5, 1), (5, 2)]],
      decision_mask_dict = [1 \<mapsto> [0, 0], 2 \<mapsto> [0, 0]],
      mask_k = replicate 10 [[0, 1, 1], [0, 1, 1]],
      agent_mask_k = replicate 10 [[0, 1, 1], [0, 1, 1]],
      tw_mask = [[[0, 1, 1], [0, 1, 1], [0, 1, 1]], [[0, 1, 1], [0, 1, 1], [0, 1, 1]]],
      tour_idx = [1 \<mapsto> [], 2 \<mapsto> []],
      tour_logp = [1 \<mapsto> [], 2 \<mapsto> []],
      tour_idx_dict = [1 \<mapsto> [[], []], 2 \<mapsto> [[], []]],
      decision_agent_id = []\<rparr>"

text \<open>A \<open>mask_start\<close> that closes every station of instance 0.\<close>

definition ex_closing_mask_start ::
  "mask \<Rightarrow> tensor \<Rightarrow> nat list list list \<Rightarrow> mask \<Rightarrow> mask \<times> mask" where
  "ex_closing_mask_start m d tw am =
     (case m of [] \<Rightarrow> ([], am) | row # rows \<Rightarrow> (map (\<lambda>v. 0) row # rows, am))"

text \<open>
  A \<open>mask_start\<close> that closes every station of every instance to the agent first due
  at time 2 in instance 0 (agent 2), as long as the agent's candidate mask is the initial
  one.
\<close>

definition ex_pruning_mask_start ::
  "mask \<Rightarrow> tensor \<Rightarrow> nat list list list \<Rightarrow> mask \<Rightarrow> mask \<times> mask" where
  "ex_pruning_mask_start m d tw am =
     (if d ! 0 ! 7 ! 0 = 2 \<and> m = [[0, 1, 1], [0, 1, 1]] then ([[0, 0, 0], [0, 0, 0]], am)
      else (m, am))"


text \<open>
  An \<open>update_fn\<close> that changes the agent's boarding data and moves its next decision
  time: it adds 100 to channel 1 and to channel 10.
\<close>

definition ex_update_fn ::
  "tensor \<Rightarrow> int list \<Rightarrow> tensor list \<Rightarrow> int list list \<Rightarrow> unit \<Rightarrow> tensor \<times> tensor list" where
  "ex_update_fn d p c tid ls =
     (map (\<lambda>inst. map (\<lambda>(r, row). if r = 1 \<or> r = 10 then map (\<lambda>v. v + 100) row else row)
                     (enumerate 0 inst)) d, c)"

text \<open>The state after the cohort extraction of the first tick.\<close>

definition ex_scheduled :: state where
  "ex_scheduled =
     (case update_decision_time 3 2 ex_state0 of Inr s \<Rightarrow> s | Inl e \<Rightarrow> ex_state0)"

text \<open>The states after the block of agent 1, and of agent 2, run from there with \<open>ex_update_fn\<close>.\<close>

definition ex_after_agent1 :: state where
  "ex_after_agent1 =
     (case agent_block (ex_self 3 False ex_mask_start (Some ex_update_fn)) 2 3 1 ex_scheduled of
        Inr s \<Rightarrow> s | Inl e \<Rightarrow> ex_scheduled)"

definition ex_after_agent2 :: state where
  "ex_after_agent2 =
     (case agent_block (ex_self 3 False ex_mask_start (Some ex_update_fn)) 2 3 2 ex_scheduled of
        Inr s \<Rightarrow> s | Inl e \<Rightarrow> ex_scheduled)"

text \<open>
  The state after the first tick run with \<open>ex_update_fn\<close>, and the state after the
  cohort extraction of the second tick.
\<close>

definition ex_after_tick1 :: state where
  "ex_after_tick1 =
     (case tick (ex_self 3 False ex_mask_start (Some ex_update_fn)) 2 3 ex_state0 of
        Inr (stop, s) \<Rightarrow> s | Inl e \<Rightarrow> ex_state0)"

definition ex_tick2_scheduled :: state where
  "ex_tick2_scheduled =
     (case update_decision_time 3 2 ex_after_tick1 of Inr s \<Rightarrow> s | Inl e \<Rightarrow> ex_after_tick1)"

text \<open>What \<open>forward\<close> returns for the concrete rollout in evaluation mode.\<close>

definition ex_result :: result where
  "ex_result =
     (case forward (ex_self 3 False ex_mask_start None) 2 3 3 3 ex_dynamics ex_records of
        Inr r \<Rightarrow> r
      | Inl e \<Rightarrow> \<lparr>out_tour_idx = Map.empty, out_tour_logp = Map.empty,
                   out_record = [], out_dynamic = []\<rparr>)"

text \<open>What \<open>forward\<close> returns for the rollout with \<open>ex_pruning_mask_start\<close>.\<close>

definition ex_pruned_result :: result where
  "ex_pruned_result =
     (case forward (ex_self 3 False ex_pruning_mask_start None) 2 3 3 3 ex_dynamics ex_records of
        Inr r \<Rightarrow> r
      | Inl e \<Rightarrow> \<lparr>out_tour_idx = Map.empty, out_tour_logp = Map.empty,
                   out_record = [], out_dynamic = []\<rparr>)"

section \<open>Basic facts about the error-propagating loops\<close>

lemma bind_err_simps [simp]:
  "bind_err (Inr x) f = f x" "bind_err (Inl e) f = Inl e"
  by (simp_all add: bind_err_def)

lemma bind_err_Inr: "bind_err m f = Inr y \<longleftrightarrow> (\<exists>x. m = Inr x \<and> f x = Inr y)"
  by (cases m) simp_all

lemma bind_err_InrE:
  assumes "bind_err m f = Inr y"
  obtains x where "m = Inr x" "f x = Inr y"
  using assms by (cases m) simp_all

lemma map_err_Inr:
  "map_err f xs = Inr ys \<longleftrightarrow>
     length ys = length xs \<and> (\<forall>i<length xs. f (xs ! i) = Inr (ys ! i))"
proof (induction xs arbitrary: ys)
  case Nil
  then show ?case by auto
next
  case (Cons x xs)
  show ?case
  proof (cases ys)
    case Nil
    then show ?thesis by (auto split: sum.splits)
  next
    case (Cons y ys')
    then show ?thesis using Cons.IH [of ys']
      by (auto split: sum.splits simp: nth_Cons less_Suc_eq_0_disj split: nat.splits)
  qed
qed

lemma map_err_total:
  "(\<And>x. x \<in> set xs \<Longrightarrow> \<exists>y. f x = Inr y) \<Longrightarrow> \<exists>ys. map_err f xs = Inr ys"
  by (induction xs) (fastforce split: sum.splits)+

lemma nth_err_Inr: "nth_err xs i = Inr x \<longleftrightarrow> i < length xs \<and> x = xs ! i"
  by (auto simp: nth_err_def)

lemma fill_dict_apply:
  "fill_dict ids v d a = (if a \<in> set ids then Some v else d a)"
  unfolding fill_dict_def by (induction ids arbitrary: d) auto

section \<open>The constructor\<close>

text \<open>
  C9, as the code has it. The constructor raises ValueError exactly on
  \<open>dynamic_size < 1\<close>, whatever the other arguments are and before anything else is
  built. \<open>Agent_n\<close> is stored unchecked: when \<open>dynamic_size\<close> is at least 1 and torch
  accepts the three sizes, construction succeeds for every integer \<open>Agent_n\<close>, positive
  or not, and the object holds that value.
\<close>

theorem init_model_validates_dynamic_size_only:
  "(dynamic_size < 1 \<longrightarrow>
      init_model torch_ok net static_size dynamic_size hidden_size Agent_n
        upd_fn msk_fn msk_start upd_tw upd_od = Inl ValueError) \<and>
   (1 \<le> dynamic_size \<and> torch_ok static_size dynamic_size hidden_size \<longrightarrow>
      init_model torch_ok net static_size dynamic_size hidden_size Agent_n
        upd_fn msk_fn msk_start upd_tw upd_od =
      Inr \<lparr>agent_number = Agent_n, update_fn = upd_fn, mask_fn = msk_fn,
           mask_start = msk_start, update_tw = upd_tw, update_od = upd_od,
           training = True, pointer = net\<rparr>)"
  by (simp add: init_model_def)

theorem init_model_validates_dynamic_size_only_witness:
  "init_model torch_accepts ex_pointer 2 0 8 3 None None (Some ex_mask_start)
     (Some ex_update_tw) (Some ex_update_od) = Inl ValueError \<and>
   init_model torch_accepts ex_pointer 2 11 8 (- 4) None None (Some ex_mask_start)
     (Some ex_update_tw) (Some ex_update_od) =
   Inr \<lparr>agent_number = - 4, update_fn = None, mask_fn = None,
        mask_start = Some ex_mask_start, update_tw = Some ex_update_tw,
        update_od = Some ex_update_od, training = True, pointer = ex_pointer\<rparr>"
  using init_model_validates_dynamic_size_only
          [of 0 torch_accepts ex_pointer 2 8 3 None None "Some ex_mask_start"
              "Some ex_update_tw" "Some ex_update_od"]
        init_model_validates_dynamic_size_only
          [of 11 torch_accepts ex_pointer 2 8 "- 4" None None "Some ex_mask_start"
              "Some ex_update_tw" "Some ex_update_od"]
  by (simp add: torch_accepts_def)

text \<open>
  C9 as stated fails: with a fleet size of 0 and sizes that torch accepts, construction
  returns a model in training mode.
\<close>

theorem init_model_accepts_nonpositive_fleet:
  "init_model torch_accepts ex_pointer 2 11 8 0 None None (Some ex_mask_start)
     (Some ex_update_tw) (Some ex_update_od) = Inr (ex_self 0 True ex_mask_start None)"
  by (simp add: init_model_def torch_accepts_def ex_self_def)

section \<open>Depot fallback\<close>

lemma depot_fallback_Inr:
  "depot_fallback m = Inr m' \<longleftrightarrow>
     length m' = length m \<and> (\<forall>i<length m. depot_row (m ! i) = Inr (m' ! i))"
  by (simp add: depot_fallback_def map_err_Inr)

text \<open>
  C7. Let \<open>m\<close> be the candidate mask that \<open>mask_start\<close> returns for agent \<open>k\<close>, with
  no row of length zero. Then the refresh completes, and in the agent's new mask every row
  of \<open>m\<close> that sums to zero is \<open>[1, 0, ..., 0]\<close> (entry 0 is 1 and every other entry
  is 0), while every other row is the row of \<open>m\<close>. This holds for the refresh at the
  start of a tick and for the refresh after another agent's turn alike.
\<close>

theorem depot_fallback_after_refresh:
  assumes k: "1 \<le> k" "k \<le> 10" "k \<le> length (mask_k s)"
    and f: "mask_start slf = Some f"
    and m: "f (mask_k s ! (k - 1)) (dynamic_k s ! (k - 1)) (tw_mask s)
              (agent_mask_k s ! (k - 1)) = (m, am)"
    and ne: "[] \<notin> set m"
  shows "\<exists>s'. refresh_mask slf prune k s = Inr s' \<and>
           length (mask_k s' ! (k - 1)) = length m \<and>
           (\<forall>i<length m. mask_k s' ! (k - 1) ! i =
              (if sum_list (m ! i) = 0 then 1 # replicate (length (m ! i) - 1) 0 else m ! i))"
proof -
  have "\<exists>m'. depot_fallback m = Inr m'"
    unfolding depot_fallback_def
    by (rule map_err_total) (use ne in \<open>auto simp: depot_row_def\<close>)
  then obtain m' where m': "depot_fallback m = Inr m'" ..
  have rows: "\<forall>i<length m. m' ! i =
      (if sum_list (m ! i) = 0 then 1 # replicate (length (m ! i) - 1) 0 else m ! i)"
    using m' ne unfolding depot_fallback_Inr
    by (auto simp: depot_row_def split: if_splits)
  have len: "length m' = length m" using m' by (simp add: depot_fallback_Inr)
  show ?thesis
    using k f m m' rows len by (simp add: refresh_mask_def)
qed

theorem depot_fallback_after_refresh_witness:
  "\<exists>s'. refresh_mask (ex_self 3 False ex_closing_mask_start None) True 2 ex_state0 = Inr s' \<and>
        mask_k s' ! 1 = [[1, 0, 0], [0, 1, 1]]"
proof -
  have "\<exists>s'. refresh_mask (ex_self 3 False ex_closing_mask_start None) True 2 ex_state0 = Inr s' \<and>
           length (mask_k s' ! (2 - 1)) = length [[0, 0, 0], [0, 1, 1::nat]] \<and>
           (\<forall>i<length [[0, 0, 0], [0, 1, 1::nat]]. mask_k s' ! (2 - 1) ! i =
              (if sum_list ([[0, 0, 0], [0, 1, 1::nat]] ! i) = 0
               then 1 # replicate (length ([[0, 0, 0], [0, 1, 1::nat]] ! i) - 1) 0
               else [[0, 0, 0], [0, 1, 1]] ! i))"
    by (rule depot_fallback_after_refresh
              [where f = ex_closing_mask_start and am = "[[0, 1, 1], [0, 1, 1]]"])
       (simp_all add: ex_state0_def ex_self_def ex_closing_mask_start_def)
  then obtain s' where
    r: "refresh_mask (ex_self 3 False ex_closing_mask_start None) True 2 ex_state0 = Inr s'"
    and l: "length (mask_k s' ! 1) = 2"
    and rows: "\<forall>i<2. mask_k s' ! 1 ! i =
              (if sum_list ([[0, 0, 0], [0, 1, 1::nat]] ! i) = 0
               then 1 # replicate (length ([[0, 0, 0], [0, 1, 1::nat]] ! i) - 1) 0
               else [[0, 0, 0], [0, 1, 1]] ! i)"
    by auto
  from rows have "mask_k s' ! 1 ! 0 = [1, 0, 0]" "mask_k s' ! 1 ! 1 = [0, 1, 1]"
    by (simp_all add: numeral_2_eq_2)
  with l have "mask_k s' ! 1 = [[1, 0, 0], [0, 1, 1]]"
    by (intro nth_equalityI) (auto simp: less_Suc_eq numeral_2_eq_2)
  with r show ?thesis by blast
qed

section \<open>The scheduling indicator\<close>

lemma init_state_example: "init_state 3 2 3 3 3 ex_dynamics ex_records = Inr ex_state0"
  by (simp add: init_state_def init_decision_list_def initial_queue_def py_range_def
      upt_rec item3_def nth_err_def ex_dynamics_def ex_dynamic_def ex_instance_def
      ex_records_def ex_state0_def fill_dict_def init_mask_row_def init_agent_mask_row_def
      numeral_eq_Suc fun_upd_twist)

text \<open>
  C1 fails in evaluation mode. In the first tick of the concrete rollout, agent 2 is not
  scheduled in instance 0 (indicator 0). Its recorded index there is 0, but its recorded
  log-probability is the raw \<open>-1/2\<close>: line 523 is \<open>logp = prob.log()\<close>, without the
  product that line 519 has in training mode.
\<close>

theorem eval_mode_logp_not_masked:
  "decision_mask_dict (tick_states (ex_self 3 False ex_mask_start None) 2 3 3 ex_state0 ! 0) 2
     = Some [0, 1] \<and>
   tour_idx (tick_states (ex_self 3 False ex_mask_start None) 2 3 3 ex_state0 ! 0) 2
     = Some [[0, 1]] \<and>
   tour_logp (tick_states (ex_self 3 False ex_mask_start None) 2 3 3 ex_state0 ! 0) 2
     = Some [[- 1 / 2, - 1 / 2]]"
  by code_simp

section \<open>One agent's block\<close>

lemma take_assign_cols:
  assumes "min n (length tr) = min n (length sr)"
  shows "take n (take n sr @ drop n tr) = take n sr"
proof (cases "n \<le> length sr")
  case True
  then show ?thesis by simp
next
  case False
  with assms have "length tr < n" by (simp add: min_def split: if_splits)
  then show ?thesis by simp
qed

lemma assign_rows_slice:
  assumes "map length (map (take n) (take 3 (drop 1 ti))) =
           map length (map (take n) (take 3 (drop 1 si)))"
  shows "map (take n) (take 3 (drop 1 (take 1 ti
            @ map2 (\<lambda>sr tr. take n sr @ drop n tr) (take 3 (drop 1 si)) (take 3 (drop 1 ti))
            @ drop 4 ti))) = map (take n) (take 3 (drop 1 si))"
proof -
  define A where "A = take 3 (drop 1 si)"
  define B where "B = take 3 (drop 1 ti)"
  define X where "X = map2 (\<lambda>sr tr. take n sr @ drop n tr) A B"
  from assms have len: "length B = length A"
    unfolding A_def B_def by (metis length_map)
  from assms have rows: "\<And>i. i < length A \<Longrightarrow> min n (length (B ! i)) = min n (length (A ! i))"
  proof -
    fix i assume i: "i < length A"
    from assms have "map length (map (take n) B) ! i = map length (map (take n) A) ! i"
      unfolding A_def B_def by simp
    with i len show "min n (length (B ! i)) = min n (length (A ! i))"
      by (simp add: min.commute)
  qed
  have lenX: "length X = length A" unfolding X_def using len by simp
  have X: "map (take n) X = map (take n) A"
  proof (rule nth_equalityI)
    show "length (map (take n) X) = length (map (take n) A)" using lenX by simp
  next
    fix i assume "i < length (map (take n) X)"
    then have i: "i < length A" using lenX by simp
    then show "map (take n) X ! i = map (take n) A ! i"
      using len lenX rows [OF i] unfolding X_def by (simp add: take_assign_cols del: take_append)
  qed
  have step: "take 3 (drop 1 (take 1 ti @ X @ drop 4 ti)) = X"
  proof (cases ti)
    case Nil
    then show ?thesis using lenX len unfolding B_def by simp
  next
    case (Cons t0 rest)
    have "length X = min 3 (length rest)" using lenX len Cons unfolding B_def by simp
    then show ?thesis using Cons by (cases "3 \<le> length rest") (simp_all add: min_def)
  qed
  have "map (take n) (take 3 (drop 1 (take 1 ti @ X @ drop 4 ti))) = map (take n) A"
    by (simp only: step X)
  then show ?thesis unfolding X_def A_def B_def .
qed

lemma assign_boarding_slice:
  assumes "assign_boarding n src tgt = Inr t'"
  shows "boarding_slice n t' = boarding_slice n src"
proof -
  from assms have sh: "map (map length) (boarding_slice n tgt) = map (map length) (boarding_slice n src)"
    and t': "t' = map2 (\<lambda>si ti. take 1 ti
                        @ map2 (\<lambda>sr tr. take n sr @ drop n tr)
                            (take 3 (drop 1 si)) (take 3 (drop 1 ti))
                        @ drop 4 ti) src tgt"
    by (auto simp: assign_boarding_def split: if_splits)
  from sh have len: "length tgt = length src"
    unfolding boarding_slice_def by (metis length_map)
  show ?thesis
  proof (rule nth_equalityI)
    show "length (boarding_slice n t') = length (boarding_slice n src)"
      using len by (simp add: boarding_slice_def t')
  next
    fix i assume "i < length (boarding_slice n t')"
    then have i: "i < length src" using len by (simp add: boarding_slice_def t')
    from sh have "map (map length) (boarding_slice n tgt) ! i = map (map length) (boarding_slice n src) ! i"
      by simp
    with i len have "map length (map (take n) (take 3 (drop 1 (tgt ! i)))) =
           map length (map (take n) (take 3 (drop 1 (src ! i))))"
      by (simp add: boarding_slice_def)
    from assign_rows_slice [OF this] i len
    show "boarding_slice n t' ! i = boarding_slice n src ! i"
      by (simp add: boarding_slice_def t')
  qed
qed

lemma broadcast_Inr:
  assumes "broadcast n a_n dyns0 = Inr dyns"
  shows "length dyns = length dyns0" "a_n - 1 < length dyns0"
    "dyns ! (a_n - 1) = dyns0 ! (a_n - 1)"
    "\<And>j. j < length dyns0 \<Longrightarrow> boarding_slice n (dyns ! j) = boarding_slice n (dyns0 ! (a_n - 1))"
proof -
  from assms obtain src where src: "nth_err dyns0 (a_n - 1) = Inr src"
    and m: "map_err (\<lambda>(j, t). if j = a_n - 1 then Inr t else assign_boarding n src t)
         (enumerate 0 dyns0) = Inr dyns"
    unfolding broadcast_def by (elim bind_err_InrE)
  from src have a: "a_n - 1 < length dyns0" and s: "src = dyns0 ! (a_n - 1)"
    by (auto simp: nth_err_def split: if_splits)
  from a show "a_n - 1 < length dyns0" .
  from m show l: "length dyns = length dyns0" by (simp add: map_err_Inr)
  from m have each: "\<And>j. j < length dyns0 \<Longrightarrow>
      (if j = a_n - 1 then Inr (dyns0 ! j) else assign_boarding n src (dyns0 ! j)) = Inr (dyns ! j)"
    by (simp add: map_err_Inr nth_enumerate_eq)
  from each [OF a] show own: "dyns ! (a_n - 1) = dyns0 ! (a_n - 1)" by simp
  fix j assume j: "j < length dyns0"
  show "boarding_slice n (dyns ! j) = boarding_slice n (dyns0 ! (a_n - 1))"
  proof (cases "j = a_n - 1")
    case True
    then show ?thesis using own by simp
  next
    case False
    with each [OF j] have "assign_boarding n src (dyns0 ! j) = Inr (dyns ! j)" by simp
    from assign_boarding_slice [OF this] show ?thesis using s by simp
  qed
qed

lemma push_decisions_Inr:
  assumes "push_decisions a_n d ptr dl = Inr dl'"
  shows "length dl' = length dl"
    "\<And>i. i < length dl \<Longrightarrow> i < length ptr \<and>
       dl' ! i = (if ptr ! i \<noteq> 0 then dl ! i @ [(d ! i ! 10 ! 0, a_n)] else dl ! i)"
proof -
  from assms show "length dl' = length dl" by (simp add: push_decisions_def map_err_Inr)
  fix i assume i: "i < length dl"
  with assms have "bind_err (nth_err ptr i) (\<lambda>p.
           if p \<noteq> 0 then bind_err (item3 d i 10 0) (\<lambda>t. Inr (dl ! i @ [(t, a_n)]))
           else Inr (dl ! i)) = Inr (dl' ! i)"
    by (simp add: push_decisions_def map_err_Inr nth_enumerate_eq)
  then show "i < length ptr \<and>
       dl' ! i = (if ptr ! i \<noteq> 0 then dl ! i @ [(d ! i ! 10 ! 0, a_n)] else dl ! i)"
    by (auto elim!: bind_err_InrE simp: nth_err_def item3_def split: if_splits)
qed

lemma agent_block_Inr:
  assumes "agent_block slf bs n_up a_n s = Inr s'"
  obtains dmt ptr logp dyn_a recs1 ls tw dyn_a' recs2 dyns dl lps idxs tid m am where
    "decision_mask_dict s a_n = Some dmt"
    "apply_decision_mask (training slf) (map (\<lambda>i. fst (pointer slf a_n s i)) [0..<bs])
        (map (\<lambda>i. snd (pointer slf a_n s i)) [0..<bs]) dmt = (ptr, logp)"
    "nth_err (dynamic_k s) (a_n - 1) = Inr dyn_a"
    "run_update_tw slf dyn_a ptr a_n s = Inr (recs1, ls, tw)"
    "run_update_fn slf dyn_a ptr recs1 ls a_n s = Inr (dyn_a', recs2)"
    "broadcast n_up a_n ((dynamic_k s)[a_n - 1 := dyn_a']) = Inr dyns"
    "push_decisions a_n dyn_a' ptr (decision_list s) = Inr dl"
    "tour_logp s a_n = Some lps" "tour_idx s a_n = Some idxs" "tour_idx_dict s a_n = Some tid"
    "run_mask_fn slf (mask_k s ! (a_n - 1)) dyn_a' (agent_mask_k s ! (a_n - 1)) ptr = (m, am)"
    "s' = s\<lparr>dynamic_k := dyns, record_k := recs2, tw_mask := tw,
                       decision_list := dl,
                       tour_logp := (tour_logp s)(a_n \<mapsto> lps @ [logp]),
                       tour_idx := (tour_idx s)(a_n \<mapsto> idxs @ [ptr]),
                       tour_idx_dict := (tour_idx_dict s)(a_n \<mapsto>
                          map2 (\<lambda>p l. if p \<noteq> 0 then l @ [p] else l) ptr tid),
                       mask_k := (mask_k s)[a_n - 1 := m],
                       agent_mask_k := (agent_mask_k s)[a_n - 1 := am]\<rparr>"
  using assms unfolding agent_block_def
  by (auto elim!: bind_err_InrE split: option.split_asm prod.split_asm)


lemma ex_after_agent1: 
  "agent_block (ex_self 3 False ex_mask_start (Some ex_update_fn)) 2 3 1 ex_scheduled = Inr ex_after_agent1"
proof -
  have "isl (agent_block (ex_self 3 False ex_mask_start (Some ex_update_fn)) 2 3 1 ex_scheduled) = False"
    by code_simp
  then show ?thesis
    by (cases "agent_block (ex_self 3 False ex_mask_start (Some ex_update_fn)) 2 3 1 ex_scheduled")
       (simp_all add: ex_after_agent1_def)
qed

lemma ex_after_agent2: 
  "agent_block (ex_self 3 False ex_mask_start (Some ex_update_fn)) 2 3 2 ex_scheduled = Inr ex_after_agent2"
proof -
  have "isl (agent_block (ex_self 3 False ex_mask_start (Some ex_update_fn)) 2 3 2 ex_scheduled) = False"
    by code_simp
  then show ?thesis
    by (cases "agent_block (ex_self 3 False ex_mask_start (Some ex_update_fn)) 2 3 2 ex_scheduled")
       (simp_all add: ex_after_agent2_def)
qed

text \<open>
  C6. Whenever the block of agent \<open>a_n\<close> completes, every one of the ten dynamic
  tensors has, in channels 1 to 3 and station columns \<open>0 .. len(up_station) - 1\<close>, the
  values of the acting agent's tensor as it is after the block, for all instances at once;
  the scheduling indicator plays no part.
\<close>

theorem broadcast_after_action:
  assumes "agent_block slf batch_size n_up a_n s = Inr s'" and "j < length (dynamic_k s)"
  shows "length (dynamic_k s') = length (dynamic_k s) \<and>
         boarding_slice n_up (dynamic_k s' ! j) = boarding_slice n_up (dynamic_k s' ! (a_n - 1))"
proof -
  from assms(1) obtain dyn_a' dyns where
    b: "broadcast n_up a_n ((dynamic_k s)[a_n - 1 := dyn_a']) = Inr dyns"
    and d: "dynamic_k s' = dyns"
    by (elim agent_block_Inr) simp
  from broadcast_Inr(1,3) [OF b] broadcast_Inr(4) [OF b, of j] assms(2) d
  show ?thesis by simp
qed

theorem broadcast_after_action_witness:
  "agent_block (ex_self 3 False ex_mask_start (Some ex_update_fn)) 2 3 1 ex_scheduled
     = Inr ex_after_agent1 \<and>
   boarding_slice 3 (dynamic_k ex_after_agent1 ! 4) = boarding_slice 3 (dynamic_k ex_after_agent1 ! 0) \<and>
   boarding_slice 3 (dynamic_k ex_scheduled ! 4) = [[[0, 0, 0], [0, 0, 0], [0, 0, 0]], [[0, 0, 0], [0, 0, 0], [0, 0, 0]]] \<and>
   boarding_slice 3 (dynamic_k ex_after_agent1 ! 4) =
     [[[100, 100, 100], [0, 0, 0], [0, 0, 0]], [[100, 100, 100], [0, 0, 0], [0, 0, 0]]]"
proof -
  have j: "4 < length (dynamic_k ex_scheduled)" by code_simp
  have v: "boarding_slice 3 (dynamic_k ex_scheduled ! 4) = [[[0, 0, 0], [0, 0, 0], [0, 0, 0]], [[0, 0, 0], [0, 0, 0], [0, 0, 0]]]" 
    "boarding_slice 3 (dynamic_k ex_after_agent1 ! 4) =
     [[[100, 100, 100], [0, 0, 0], [0, 0, 0]], [[100, 100, 100], [0, 0, 0], [0, 0, 0]]]"
    by code_simp+
  from broadcast_after_action [OF ex_after_agent1 j] ex_after_agent1 v show ?thesis by simp
qed

text \<open>
  C8. Whenever the block of agent \<open>a_n\<close> completes, the column \<open>ptr\<close> of chosen
  indices is the last column of \<open>tour_idx[a_n]\<close>, and the queue of instance \<open>i\<close> is
  the old queue followed by the one entry \<open>(next_time, a_n)\<close> when \<open>ptr[i]\<close> is not
  0, with \<open>next_time\<close> read at channel 10, column 0 of the agent's tensor after the block;
  it is the old queue when \<open>ptr[i]\<close> is 0.
\<close>

theorem decision_pushed_after_action:
  assumes "agent_block slf batch_size n_up a_n s = Inr s'" and "i < length (decision_list s)"
  shows "\<exists>idxs ptr. tour_idx s' a_n = Some (idxs @ [ptr]) \<and> i < length ptr \<and>
           length (decision_list s') = length (decision_list s) \<and>
           decision_list s' ! i =
             (if ptr ! i \<noteq> 0
              then decision_list s ! i @ [(dynamic_k s' ! (a_n - 1) ! i ! 10 ! 0, a_n)]
              else decision_list s ! i)"
proof -
  from assms(1) obtain ptr dyn_a' dyns dl idxs where
    b: "broadcast n_up a_n ((dynamic_k s)[a_n - 1 := dyn_a']) = Inr dyns"
    and p: "push_decisions a_n dyn_a' ptr (decision_list s) = Inr dl"
    and d: "dynamic_k s' = dyns" "decision_list s' = dl" "tour_idx s' a_n = Some (idxs @ [ptr])"
    by (elim agent_block_Inr) simp
  from broadcast_Inr(2,3) [OF b] have "dyns ! (a_n - 1) = dyn_a'" by simp
  with push_decisions_Inr(1) [OF p] push_decisions_Inr(2) [OF p assms(2)] d
  show ?thesis by auto
qed

theorem decision_pushed_after_action_witness:
  "agent_block (ex_self 3 False ex_mask_start (Some ex_update_fn)) 2 3 2 ex_scheduled
     = Inr ex_after_agent2 \<and>
   tour_idx ex_after_agent2 2 = Some [[0, 1]] \<and>
   decision_list ex_scheduled = [[(2, 2)], []] \<and>
   decision_list ex_after_agent2 = [[(2, 2)], [(112, 2)]] \<and>
   (\<exists>idxs ptr. tour_idx ex_after_agent2 2 = Some (idxs @ [ptr]) \<and> 1 < length ptr \<and>
           length (decision_list ex_after_agent2) = length (decision_list ex_scheduled) \<and>
           decision_list ex_after_agent2 ! 1 =
             (if ptr ! 1 \<noteq> 0
              then decision_list ex_scheduled ! 1 @ [(dynamic_k ex_after_agent2 ! (2 - 1) ! 1 ! 10 ! 0, 2)]
              else decision_list ex_scheduled ! 1))"
proof -
  have i: "1 < length (decision_list ex_scheduled)" by code_simp
  have v: "tour_idx ex_after_agent2 2 = Some [[0, 1]]"
    "decision_list ex_scheduled = [[(2, 2)], []]"
    "decision_list ex_after_agent2 = [[(2, 2)], [(112, 2)]]"
    by code_simp+
  from decision_pushed_after_action [OF ex_after_agent2 i] ex_after_agent2 v show ?thesis
    by blast
qed


section \<open>Cohort extraction\<close>

lemma flag_scheduled_Inr:
  "flag_scheduled dmd a i = Inr dmd' \<longleftrightarrow>
     (\<exists>v. dmd a = Some v \<and> i < length v \<and> dmd' = dmd(a \<mapsto> v[i := 1]))"
  by (auto simp: flag_scheduled_def split: option.splits)

lemma remove_entry_Inr:
  "remove_entry dl i e = Inr dl' \<longleftrightarrow>
     i < length dl \<and> e \<in> set (dl ! i) \<and> dl' = dl[i := remove1 e (dl ! i)]"
  by (auto simp: remove_entry_def nth_err_def)

lemma take_entry_Inr:
  "take_entry i e (dmd, dl) = Inr (dmd', dl') \<longleftrightarrow>
     (\<exists>v. dmd (snd e) = Some v \<and> i < length v \<and> dmd' = dmd(snd e \<mapsto> v[i := 1])) \<and>
     i < length dl \<and> e \<in> set (dl ! i) \<and> dl' = dl[i := remove1 e (dl ! i)]"
  by (auto simp: take_entry_def bind_err_Inr flag_scheduled_Inr remove_entry_Inr)

lemma tie_loop_Inr:
  assumes "fold_err (\<lambda>e st. if P e then take_entry i e st else Inr st) es (dmd, dl)
             = Inr (dmd', dl')"
  shows "dl' = dl[i := fold remove1 (filter P es) (dl ! i)] \<and>
         (\<forall>a. dmd' a = map_option (flagged (filter P es) i a) (dmd a))"
  using assms
proof (induction es arbitrary: dmd dl)
  case Nil
  then show ?case by (simp add: flagged_def option.map_ident)
next
  case (Cons e es)
  show ?case
  proof (cases "P e")
    case False
    with Cons show ?thesis by simp
  next
    case True
    with Cons.prems obtain st1 where t: "take_entry i e (dmd, dl) = Inr st1"
      and r: "fold_err (\<lambda>e st. if P e then take_entry i e st else Inr st) es st1 = Inr (dmd', dl')"
      by (auto split: sum.splits)
    obtain dmd1 dl1 where st1: "st1 = (dmd1, dl1)" by (cases st1)
    from t st1 obtain v where v: "dmd (snd e) = Some v" "i < length v"
      "dmd1 = dmd(snd e \<mapsto> v[i := 1])"
      and dl1: "i < length dl" "e \<in> set (dl ! i)" "dl1 = dl[i := remove1 e (dl ! i)]"
      by (auto simp: take_entry_Inr)
    from Cons.IH [OF r [unfolded st1]]
    have ih: "dl' = dl1[i := fold remove1 (filter P es) (dl1 ! i)]"
      "\<And>a. dmd' a = map_option (flagged (filter P es) i a) (dmd1 a)" by auto
    have "dl' = dl[i := fold remove1 (filter P (e # es)) (dl ! i)]"
      using ih(1) dl1 True by simp
    moreover have "dmd' a = map_option (flagged (filter P (e # es)) i a) (dmd a)" for a
      using ih(2) [of a] v True by (cases "dmd a") (auto simp: flagged_def)
    ultimately show ?thesis by blast
  qed
qed

lemma fold_remove1_filter:
  assumes "\<forall>x\<in>set pre. \<not> P x"
  shows "fold remove1 (filter P q) (pre @ q) = pre @ filter (\<lambda>x. \<not> P x) q"
  using assms
proof (induction q arbitrary: pre)
  case Nil
  then show ?case by simp
next
  case (Cons x q)
  show ?case
  proof (cases "P x")
    case True
    with Cons.prems have "x \<notin> set pre" by auto
    then have "remove1 x (pre @ x # q) = pre @ q" by (simp add: remove1_append)
    with Cons.IH [OF Cons.prems] True show ?thesis by simp
  next
    case False
    with Cons.prems have "\<forall>y\<in>set (pre @ [x]). \<not> P y" by auto
    from Cons.IH [OF this] False show ?thesis by simp
  qed
qed

lemma fold_remove1_cohort:
  "fold remove1 (cohort q) q = filter (\<lambda>e. fst e \<noteq> fst (hd q)) q"
proof (cases q)
  case Nil
  then show ?thesis by (simp add: cohort_def)
next
  case (Cons e0 rest)
  have "cohort q = filter (\<lambda>e. fst e = fst e0) q" using Cons by (simp add: cohort_def)
  with fold_remove1_filter [of "[]" "\<lambda>e. fst e = fst e0" q] Cons show ?thesis by simp
qed

lemma set_cohort: "q \<noteq> [] \<Longrightarrow> set (cohort q) = {e \<in> set q. fst e = fst (hd q)}"
  by (cases q) (auto simp: cohort_def)

lemma cohort_eq_filter: "q \<noteq> [] \<Longrightarrow> cohort q = filter (\<lambda>e. fst e = fst (hd q)) q"
  by (cases q) (auto simp: cohort_def)

lemma sorted_hd_Min:
  assumes "sorted (map fst q)" "q \<noteq> []"
  shows "fst (hd q) = Min (fst ` set q)"
proof -
  obtain e rest where q: "q = e # rest" using assms(2) by (cases q) auto
  with assms(1) have "\<forall>x\<in>set rest. fst e \<le> fst x" by auto
  then have "Min (fst ` set q) = fst e" unfolding q
    by (intro Min_eqI) auto
  then show ?thesis using q by simp
qed


lemma write_row5_Inr:
  "write_row5 src i t = Inr t' \<longleftrightarrow>
     i < length t \<and> 5 < length (t ! i) \<and>
     (\<exists>new. copy_row src (t ! i ! 5) = Inr new \<and> t' = t[i := (t ! i)[5 := new]])"
  by (auto simp: write_row5_def bind_err_Inr nth_err_Inr)

lemma sync_row5_Inr:
  assumes "sync_row5 dyn a i dcl = Inr dcl'"
  shows "length dcl' = length dcl"
    and "\<And>k. k < length dcl \<Longrightarrow> i < length (dcl ! k) \<and> 5 < length (dcl ! k ! i) \<and>
           (\<exists>new. copy_row (head_row10 dyn a i) (dcl ! k ! i ! 5) = Inr new \<and>
                  dcl' ! k = (dcl ! k)[i := (dcl ! k ! i)[5 := new]])"
proof -
  from assms obtain d inst src where
    d: "(if a = 0 then (if dyn = [] then Inl IndexError else Inr (last dyn))
         else nth_err dyn (a - 1)) = Inr d"
    and i: "nth_err d i = Inr inst" and r: "nth_err inst 10 = Inr src"
    and m: "map_err (write_row5 src i) dcl = Inr dcl'"
    unfolding sync_row5_def by (elim bind_err_InrE)
  from d have "d = (if a = 0 then last dyn else dyn ! (a - 1))"
    by (auto simp: nth_err_Inr split: if_splits)
  with i r have src: "src = head_row10 dyn a i"
    by (simp add: nth_err_Inr head_row10_def)
  from m show "length dcl' = length dcl" by (simp add: map_err_Inr)
  fix k assume "k < length dcl"
  with m have "write_row5 src i (dcl ! k) = Inr (dcl' ! k)" by (simp add: map_err_Inr)
  then show "i < length (dcl ! k) \<and> 5 < length (dcl ! k ! i) \<and>
           (\<exists>new. copy_row (head_row10 dyn a i) (dcl ! k ! i ! 5) = Inr new \<and>
                  dcl' ! k = (dcl ! k)[i := (dcl ! k ! i)[5 := new]])"
    unfolding write_row5_Inr src by blast
qed

lemma map_option_flagged_Nil [simp]: "map_option (flagged [] i a) x = x"
  by (cases x) (simp_all add: flagged_def)

lemma extract_instance_Inr:
  assumes "extract_instance dyn (i, q) (dmd, dl, dcl) = Inr (dmd', dl', dcl')"
  shows "dl' = dl[i := fold remove1 (cohort q) (dl ! i)]"
    and "\<And>a. dmd' a = map_option (flagged (cohort q) i a) (dmd a)"
    and "q = [] \<Longrightarrow> dcl' = dcl"
    and "q \<noteq> [] \<Longrightarrow> sync_row5 dyn (snd (hd q)) i dcl = Inr dcl'"
proof -
  have "dl' = dl[i := fold remove1 (cohort q) (dl ! i)] \<and>
        (\<forall>a. dmd' a = map_option (flagged (cohort q) i a) (dmd a)) \<and>
        (q = [] \<longrightarrow> dcl' = dcl) \<and>
        (q \<noteq> [] \<longrightarrow> sync_row5 dyn (snd (hd q)) i dcl = Inr dcl')"
  proof (cases q)
    case Nil
    with assms show ?thesis
      by (simp add: extract_instance_def cohort_def)
  next
    case (Cons e0 rest)
    with assms obtain st1 st2 where
      t: "take_entry i e0 (dmd, dl) = Inr st1"
      and sy: "sync_row5 dyn (snd e0) i dcl = Inr dcl'"
      and f: "fold_err (\<lambda>e st. if fst e = fst e0 then take_entry i e st else Inr st) rest st1
                = Inr st2"
      and st2: "dmd' = fst st2" "dl' = snd st2"
      unfolding extract_instance_def by (auto elim!: bind_err_InrE)
    obtain dmd1 dl1 where st1: "st1 = (dmd1, dl1)" by (cases st1)
    from t st1 obtain v where v: "dmd (snd e0) = Some v" "i < length v"
      "dmd1 = dmd(snd e0 \<mapsto> v[i := 1])"
      and dl1: "i < length dl" "e0 \<in> set (dl ! i)" "dl1 = dl[i := remove1 e0 (dl ! i)]"
      by (auto simp: take_entry_Inr)
    from f st1 st2 have "fold_err (\<lambda>e st. if fst e = fst e0 then take_entry i e st else Inr st)
         rest (dmd1, dl1) = Inr (dmd', dl')" by simp
    from tie_loop_Inr [OF this]
    have r: "dl' = dl1[i := fold remove1 (filter (\<lambda>e. fst e = fst e0) rest) (dl1 ! i)]"
      "\<And>a. dmd' a = map_option (flagged (filter (\<lambda>e. fst e = fst e0) rest) i a) (dmd1 a)"
      by auto
    have c: "cohort q = e0 # filter (\<lambda>e. fst e = fst e0) rest" using Cons by (simp add: cohort_def)
    have "dl' = dl[i := fold remove1 (cohort q) (dl ! i)]"
      using r(1) dl1 c by simp
    moreover have "dmd' a = map_option (flagged (cohort q) i a) (dmd a)" for a
      using r(2) [of a] v c by (cases "dmd a") (auto simp: flagged_def)
    ultimately show ?thesis using sy Cons by simp
  qed
  then show "dl' = dl[i := fold remove1 (cohort q) (dl ! i)]"
    and "\<And>a. dmd' a = map_option (flagged (cohort q) i a) (dmd a)"
    and "q = [] \<Longrightarrow> dcl' = dcl"
    and "q \<noteq> [] \<Longrightarrow> sync_row5 dyn (snd (hd q)) i dcl = Inr dcl'"
    by blast+
qed


lemma fold_err_Cons_Inr:
  "fold_err f (x # xs) s = Inr s' \<longleftrightarrow> (\<exists>s1. f x s = Inr s1 \<and> fold_err f xs s1 = Inr s')"
  by (auto split: sum.splits)

lemma extraction_fold_step:
  assumes "fold_err (extract_instance dyn) (enumerate n (q # qs)) (dmd, dl, dcl) = Inr st'"
  obtains dmd1 dl1 dcl1 where
    "extract_instance dyn (n, q) (dmd, dl, dcl) = Inr (dmd1, dl1, dcl1)"
    "fold_err (extract_instance dyn) (enumerate (Suc n) qs) (dmd1, dl1, dcl1) = Inr st'"
proof -
  from assms obtain st1 where 1: "extract_instance dyn (n, q) (dmd, dl, dcl) = Inr st1"
    and 2: "fold_err (extract_instance dyn) (enumerate (Suc n) qs) st1 = Inr st'"
    by (auto split: sum.splits)
  obtain dmd1 dl1 dcl1 where "st1 = (dmd1, dl1, dcl1)" by (cases st1)
  with 1 2 that show thesis by blast
qed

lemma nth_Cons_shift: "n \<le> j \<Longrightarrow> j \<noteq> n \<Longrightarrow> (q # qs) ! (j - n) = qs ! (j - Suc n)"
proof -
  assume "n \<le> j" "j \<noteq> n"
  then have "j - n = Suc (j - Suc n)" by simp
  then show ?thesis by simp
qed

lemma extraction_fold_queues:
  assumes "fold_err (extract_instance dyn) (enumerate n qs) (dmd, dl, dcl) = Inr (dmd', dl', dcl')"
  shows "length dl' = length dl \<and>
         (\<forall>j<length dl. dl' ! j =
            (if n \<le> j \<and> j < n + length qs then fold remove1 (cohort (qs ! (j - n))) (dl ! j)
             else dl ! j))"
  using assms
proof (induction qs arbitrary: n dmd dl dcl)
  case Nil
  then show ?case by auto
next
  case (Cons q qs)
  from Cons.prems obtain dmd1 dl1 dcl1 where
    h: "extract_instance dyn (n, q) (dmd, dl, dcl) = Inr (dmd1, dl1, dcl1)"
    and r: "fold_err (extract_instance dyn) (enumerate (Suc n) qs) (dmd1, dl1, dcl1)
              = Inr (dmd', dl', dcl')"
    by (rule extraction_fold_step)
  from extract_instance_Inr(1) [OF h]
  have dl1: "dl1 = dl[n := fold remove1 (cohort q) (dl ! n)]" .
  from Cons.IH [OF r] have ih: "length dl' = length dl1"
    "\<And>j. j < length dl1 \<Longrightarrow> dl' ! j =
            (if Suc n \<le> j \<and> j < Suc n + length qs
             then fold remove1 (cohort (qs ! (j - Suc n))) (dl1 ! j) else dl1 ! j)"
    by auto
  show ?case
  proof (intro conjI allI impI)
    show "length dl' = length dl" using ih(1) dl1 by simp
  next
    fix j assume j: "j < length dl"
    then have j1: "j < length dl1" using dl1 by simp
    show "dl' ! j =
            (if n \<le> j \<and> j < n + length (q # qs)
             then fold remove1 (cohort ((q # qs) ! (j - n))) (dl ! j) else dl ! j)"
    proof (cases "j = n")
      case True
      with ih(2) [OF j1] dl1 j show ?thesis by simp
    next
      case False
      then have "dl1 ! j = dl ! j" using dl1 by simp
      moreover have "n \<le> j \<Longrightarrow> (q # qs) ! (j - n) = qs ! (j - Suc n)"
        using False by (simp add: nth_Cons_shift)
      ultimately show ?thesis using ih(2) [OF j1] False by auto
    qed
  qed
qed


lemma extraction_fold_flags:
  assumes "fold_err (extract_instance dyn) (enumerate n qs) (dmd, dl, dcl) = Inr (dmd', dl', dcl')"
    and "dmd a = Some v"
  shows "\<exists>v'. dmd' a = Some v' \<and> length v' = length v \<and>
           (\<forall>j<length v. v' ! j =
              (if n \<le> j \<and> j < n + length qs \<and> a \<in> snd ` set (cohort (qs ! (j - n)))
               then 1 else v ! j))"
  using assms
proof (induction qs arbitrary: n dmd dl dcl v)
  case Nil
  then show ?case by auto
next
  case (Cons q qs)
  from Cons.prems(1) obtain dmd1 dl1 dcl1 where
    h: "extract_instance dyn (n, q) (dmd, dl, dcl) = Inr (dmd1, dl1, dcl1)"
    and r: "fold_err (extract_instance dyn) (enumerate (Suc n) qs) (dmd1, dl1, dcl1)
              = Inr (dmd', dl', dcl')"
    by (rule extraction_fold_step)
  define v1 where "v1 = flagged (cohort q) n a v"
  from extract_instance_Inr(2) [OF h, of a] Cons.prems(2)
  have d1: "dmd1 a = Some v1" by (simp add: v1_def)
  have l1: "length v1 = length v" by (simp add: v1_def flagged_def)
  have v1: "\<And>j. j < length v \<Longrightarrow>
      v1 ! j = (if j = n \<and> a \<in> snd ` set (cohort q) then 1 else v ! j)"
    by (auto simp: v1_def flagged_def nth_list_update)
  from Cons.IH [OF r d1] obtain v' where v': "dmd' a = Some v'" "length v' = length v1"
    "\<And>j. j < length v1 \<Longrightarrow> v' ! j =
              (if Suc n \<le> j \<and> j < Suc n + length qs \<and> a \<in> snd ` set (cohort (qs ! (j - Suc n)))
               then 1 else v1 ! j)"
    by blast
  have "v' ! j = (if n \<le> j \<and> j < n + length (q # qs) \<and> a \<in> snd ` set (cohort ((q # qs) ! (j - n)))
               then 1 else v ! j)" if j: "j < length v" for j
  proof (cases "j = n")
    case True
    with v'(3) [of j] v1 [OF j] j l1 show ?thesis by simp
  next
    case False
    with v'(3) [of j] v1 [OF j] j l1 show ?thesis
      by (auto simp: nth_Cons_shift)
  qed
  with v'(1,2) l1 show ?case by auto
qed

lemma extraction_fold_dynamic:
  assumes "fold_err (extract_instance dyn) (enumerate n qs) (dmd, dl, dcl) = Inr (dmd', dl', dcl')"
    and "k < length dcl"
  shows "length dcl' = length dcl \<and> length (dcl' ! k) = length (dcl ! k) \<and>
         (\<forall>j. if n \<le> j \<and> j < n + length qs \<and> qs ! (j - n) \<noteq> []
              then j < length (dcl ! k) \<and> 5 < length (dcl ! k ! j) \<and>
                   (\<exists>new. copy_row (head_row10 dyn (snd (hd (qs ! (j - n)))) j)
                             (dcl ! k ! j ! 5) = Inr new \<and>
                          dcl' ! k ! j = (dcl ! k ! j)[5 := new])
              else dcl' ! k ! j = dcl ! k ! j)"
  using assms
proof (induction qs arbitrary: n dmd dl dcl)
  case Nil
  then show ?case by auto
next
  case (Cons q qs)
  from Cons.prems(1) obtain dmd1 dl1 dcl1 where
    h: "extract_instance dyn (n, q) (dmd, dl, dcl) = Inr (dmd1, dl1, dcl1)"
    and r: "fold_err (extract_instance dyn) (enumerate (Suc n) qs) (dmd1, dl1, dcl1)
              = Inr (dmd', dl', dcl')"
    by (rule extraction_fold_step)
  have head: "length dcl1 = length dcl \<and> length (dcl1 ! k) = length (dcl ! k) \<and>
     (\<forall>j. j \<noteq> n \<longrightarrow> dcl1 ! k ! j = dcl ! k ! j) \<and>
     (if q \<noteq> [] then n < length (dcl ! k) \<and> 5 < length (dcl ! k ! n) \<and>
                   (\<exists>new. copy_row (head_row10 dyn (snd (hd q)) n) (dcl ! k ! n ! 5) = Inr new \<and>
                          dcl1 ! k ! n = (dcl ! k ! n)[5 := new])
      else dcl1 ! k ! n = dcl ! k ! n)"
  proof (cases "q = []")
    case True
    with extract_instance_Inr(3) [OF h] show ?thesis by simp
  next
    case False
    from extract_instance_Inr(4) [OF h False]
    have sy: "sync_row5 dyn (snd (hd q)) n dcl = Inr dcl1" .
    from sync_row5_Inr(2) [OF sy Cons.prems(2)] sync_row5_Inr(1) [OF sy] False
    show ?thesis by auto
  qed
  then have k1: "k < length dcl1" using Cons.prems(2) by simp
  from Cons.IH [OF r k1] have ih: "length dcl' = length dcl1"
    "length (dcl' ! k) = length (dcl1 ! k)"
    "\<And>j. if Suc n \<le> j \<and> j < Suc n + length qs \<and> qs ! (j - Suc n) \<noteq> []
              then j < length (dcl1 ! k) \<and> 5 < length (dcl1 ! k ! j) \<and>
                   (\<exists>new. copy_row (head_row10 dyn (snd (hd (qs ! (j - Suc n)))) j)
                             (dcl1 ! k ! j ! 5) = Inr new \<and>
                          dcl' ! k ! j = (dcl1 ! k ! j)[5 := new])
              else dcl' ! k ! j = dcl1 ! k ! j"
    by auto
  have "if n \<le> j \<and> j < n + length (q # qs) \<and> (q # qs) ! (j - n) \<noteq> []
              then j < length (dcl ! k) \<and> 5 < length (dcl ! k ! j) \<and>
                   (\<exists>new. copy_row (head_row10 dyn (snd (hd ((q # qs) ! (j - n)))) j)
                             (dcl ! k ! j ! 5) = Inr new \<and>
                          dcl' ! k ! j = (dcl ! k ! j)[5 := new])
              else dcl' ! k ! j = dcl ! k ! j" for j
  proof (cases "j = n")
    case True
    with ih(3) [of j] head show ?thesis by (auto split: if_splits)
  next
    case False
    then have e: "dcl1 ! k ! j = dcl ! k ! j" using head by simp
    show ?thesis
    proof (cases "n \<le> j")
      case True
      with False have s: "(q # qs) ! (j - n) = qs ! (j - Suc n)" by (simp add: nth_Cons_shift)
      from True False have "Suc n \<le> j" by simp
      with ih(3) [of j] e s head show ?thesis by (auto split: if_splits)
    next
      case False
      with ih(3) [of j] e show ?thesis by (auto split: if_splits)
    qed
  qed
  with ih(1,2) head show ?case by simp
qed


lemma update_decision_time_Inr:
  assumes "update_decision_time Agent_n batch_size s = Inr s'"
  obtains dmd dl dcl where
    "fold_err (extract_instance (dynamic s)) (enumerate 0 (decision_list s))
       (fill_dict (py_range 1 Agent_n) (replicate batch_size 0) (decision_mask_dict s),
        decision_list s, dynamic_k s) = Inr (dmd, dl, dcl)"
    "s' = s\<lparr>decision_mask_dict := dmd, decision_list := dl, dynamic_k := dcl\<rparr>"
  using assms unfolding update_decision_time_def
  by (auto elim!: bind_err_InrE)

lemma cohort_ids:
  assumes "q \<noteq> []" "sorted (map fst q)"
  shows "a \<in> snd ` set (cohort q) \<longleftrightarrow> (Min (fst ` set q), a) \<in> set q"
  using assms by (force simp: set_cohort sorted_hd_Min [symmetric])

lemma length_filter_distinct_snd:
  assumes "distinct (map snd q)"
  shows "length (filter (\<lambda>e. fst e = t) q) = card {a. (t, a) \<in> set q}"
proof -
  have "distinct (map snd (filter (\<lambda>e. fst e = t) q))"
    using assms by (rule distinct_map_filter)
  then have "card (set (map snd (filter (\<lambda>e. fst e = t) q))) = length (filter (\<lambda>e. fst e = t) q)"
    by (metis distinct_card length_map)
  moreover have "set (map snd (filter (\<lambda>e. fst e = t) q)) = {a. (t, a) \<in> set q}"
    by force
  ultimately show ?thesis by simp
qed

lemma ex_scheduled: "update_decision_time 3 2 ex_state0 = Inr ex_scheduled"
proof -
  have "isl (update_decision_time 3 2 ex_state0) = False" by code_simp
  then show ?thesis
    by (cases "update_decision_time 3 2 ex_state0") (simp_all add: ex_scheduled_def)
qed

lemma ex_after_tick1:
  "tick (ex_self 3 False ex_mask_start (Some ex_update_fn)) 2 3 ex_state0
     = Inr (False, ex_after_tick1)"
proof -
  have "isl (tick (ex_self 3 False ex_mask_start (Some ex_update_fn)) 2 3 ex_state0) = False"
    "fst (projr (tick (ex_self 3 False ex_mask_start (Some ex_update_fn)) 2 3 ex_state0)) = False"
    by code_simp+
  then show ?thesis
    by (cases "tick (ex_self 3 False ex_mask_start (Some ex_update_fn)) 2 3 ex_state0")
       (auto simp: ex_after_tick1_def)
qed

lemma ex_tick2_scheduled: "update_decision_time 3 2 ex_after_tick1 = Inr ex_tick2_scheduled"
proof -
  have "isl (update_decision_time 3 2 ex_after_tick1) = False" by code_simp
  then show ?thesis
    by (cases "update_decision_time 3 2 ex_after_tick1") (simp_all add: ex_tick2_scheduled_def)
qed

text \<open>
  C5. Suppose the cohort extraction of a tick completes, and instance \<open>i\<close> has a
  non-empty queue sorted by time. Then the instance's queue afterwards is the old queue
  without the entries whose time is the minimum; every agent id of the fleet range has its
  indicator for the instance set to 1 if it owns an entry with the minimal time and to 0
  otherwise; the number of entries removed is the number of entries with the minimal time,
  which is the number of agents with that time when no agent is queued twice.
\<close>

theorem cohort_extraction:
  assumes ext: "update_decision_time Agent_n batch_size s = Inr s'"
    and i: "i < length (decision_list s)" "i < batch_size"
    and ne: "decision_list s ! i \<noteq> []"
    and sorted: "sorted (map fst (decision_list s ! i))"
  shows "decision_list s' ! i =
           filter (\<lambda>e. fst e \<noteq> Min (fst ` set (decision_list s ! i))) (decision_list s ! i) \<and>
         (\<forall>a\<in>set (py_range 1 Agent_n). \<exists>v. decision_mask_dict s' a = Some v \<and>
            length v = batch_size \<and>
            v ! i = (if (Min (fst ` set (decision_list s ! i)), a) \<in> set (decision_list s ! i)
                     then 1 else 0)) \<and>
         length (decision_list s ! i) - length (decision_list s' ! i) =
           length (filter (\<lambda>e. fst e = Min (fst ` set (decision_list s ! i))) (decision_list s ! i)) \<and>
         (distinct (map snd (decision_list s ! i)) \<longrightarrow>
            length (decision_list s ! i) - length (decision_list s' ! i) =
              card {a. (Min (fst ` set (decision_list s ! i)), a) \<in> set (decision_list s ! i)})"
proof -
  define q where "q = decision_list s ! i"
  define tm where "tm = Min (fst ` set q)"
  from ext obtain dmd dl dcl where
    f: "fold_err (extract_instance (dynamic s)) (enumerate 0 (decision_list s))
       (fill_dict (py_range 1 Agent_n) (replicate batch_size 0) (decision_mask_dict s),
        decision_list s, dynamic_k s) = Inr (dmd, dl, dcl)"
    and s': "s' = s\<lparr>decision_mask_dict := dmd, decision_list := dl, dynamic_k := dcl\<rparr>"
    by (rule update_decision_time_Inr)
  have hd: "fst (hd q) = tm" using sorted ne unfolding q_def tm_def by (rule sorted_hd_Min)
  from extraction_fold_queues [OF f] i(1)
  have "dl ! i = fold remove1 (cohort q) q" by (simp add: q_def)
  then have dl: "dl ! i = filter (\<lambda>e. fst e \<noteq> tm) q"
    by (simp add: fold_remove1_cohort hd)
  have flags: "\<exists>v. dmd a = Some v \<and> length v = batch_size \<and>
      v ! i = (if (tm, a) \<in> set q then 1 else 0)" if a: "a \<in> set (py_range 1 Agent_n)" for a
  proof -
    from a have "fill_dict (py_range 1 Agent_n) (replicate batch_size 0) (decision_mask_dict s) a
       = Some (replicate batch_size 0)" by (simp add: fill_dict_apply)
    from extraction_fold_flags [OF f this] obtain v' where
      v': "dmd a = Some v'" "length v' = batch_size"
      "\<And>j. j < batch_size \<Longrightarrow> v' ! j =
          (if j < length (decision_list s) \<and> a \<in> snd ` set (cohort (decision_list s ! j))
           then 1 else replicate batch_size 0 ! j)"
      by auto
    from v'(3) [OF i(2)] i have "v' ! i = (if a \<in> snd ` set (cohort q) then 1 else 0)"
      by (simp add: q_def)
    with v'(1,2) cohort_ids [OF ne sorted, of a] show ?thesis
      by (auto simp: q_def tm_def)
  qed
  have cnt: "length q - length (dl ! i) = length (filter (\<lambda>e. fst e = tm) q)"
    using sum_length_filter_compl [of "\<lambda>e. fst e = tm" q] dl by simp
  have "distinct (map snd q) \<longrightarrow> length q - length (dl ! i) = card {a. (tm, a) \<in> set q}"
    using cnt length_filter_distinct_snd [of q tm] by simp
  with dl flags cnt show ?thesis
    unfolding s' q_def [symmetric] tm_def [symmetric] by simp
qed

theorem cohort_extraction_witness:
  "update_decision_time 3 2 ex_state0 = Inr ex_scheduled \<and>
   decision_list ex_state0 ! 1 = [(5, 1), (5, 2)] \<and>
   decision_list ex_scheduled ! 1 = [] \<and>
   decision_mask_dict ex_scheduled 1 = Some [1, 1] \<and>
   decision_mask_dict ex_scheduled 2 = Some [0, 1] \<and>
   length (decision_list ex_state0 ! 1) - length (decision_list ex_scheduled ! 1) = 2 \<and>
   card {a. (Min (fst ` set (decision_list ex_state0 ! 1)), a) \<in> set (decision_list ex_state0 ! 1)} = 2"
proof -
  have q: "decision_list ex_state0 ! 1 = [(5, 1), (5, 2)]" by (simp add: ex_state0_def)
  have h: "1 < length (decision_list ex_state0)" "(1::nat) < 2"
    "decision_list ex_state0 ! 1 \<noteq> []" "sorted (map fst (decision_list ex_state0 ! 1))"
    "distinct (map snd (decision_list ex_state0 ! 1))"
    by (simp_all add: ex_state0_def)
  have v: "decision_list ex_scheduled ! 1 = []"
    "decision_mask_dict ex_scheduled 1 = Some [1, 1]"
    "decision_mask_dict ex_scheduled 2 = Some [0, 1]"
    by code_simp+
  from cohort_extraction [OF ex_scheduled h(1-4)] h(5)
  have "length (decision_list ex_state0 ! 1) - length (decision_list ex_scheduled ! 1) =
     card {a. (Min (fst ` set (decision_list ex_state0 ! 1)), a) \<in> set (decision_list ex_state0 ! 1)}"
    by blast
  with ex_scheduled q v show ?thesis by simp
qed


text \<open>
  C10, as the code has it. Suppose the cohort extraction of a tick completes. For an
  instance with a non-empty queue, the instance's part of every tensor \<open>dynamicK\<close> is the
  old one with row 5 replaced by row 10 of the head agent's entry of the list \<open>dynamic\<close>
  (rows of one length); no other row changes. For an instance with an empty queue nothing
  changes. The list \<open>dynamic\<close> is what \<open>update_od\<close> returned in the tick before (the
  input tensors in the first tick), not the tensor the agent holds now.
\<close>

theorem row5_written_from_dynamic_list:
  assumes ext: "update_decision_time Agent_n batch_size s = Inr s'"
    and k: "k < length (dynamic_k s)"
  shows "length (dynamic_k s') = length (dynamic_k s) \<and>
         length (dynamic_k s' ! k) = length (dynamic_k s ! k) \<and>
         (i < length (decision_list s) \<and> decision_list s ! i \<noteq> [] \<and>
          length (head_row10 (dynamic s) (snd (hd (decision_list s ! i))) i)
            = length (dynamic_k s ! k ! i ! 5)
          \<longrightarrow> dynamic_k s' ! k ! i =
                (dynamic_k s ! k ! i)
                  [5 := head_row10 (dynamic s) (snd (hd (decision_list s ! i))) i]) \<and>
         (\<not> (i < length (decision_list s) \<and> decision_list s ! i \<noteq> [])
          \<longrightarrow> dynamic_k s' ! k ! i = dynamic_k s ! k ! i)"
proof -
  from ext obtain dmd dl dcl where
    f: "fold_err (extract_instance (dynamic s)) (enumerate 0 (decision_list s))
       (fill_dict (py_range 1 Agent_n) (replicate batch_size 0) (decision_mask_dict s),
        decision_list s, dynamic_k s) = Inr (dmd, dl, dcl)"
    and s': "s' = s\<lparr>decision_mask_dict := dmd, decision_list := dl, dynamic_k := dcl\<rparr>"
    by (rule update_decision_time_Inr)
  from extraction_fold_dynamic [OF f k]
  have l: "length dcl = length (dynamic_k s)" "length (dcl ! k) = length (dynamic_k s ! k)"
    and r: "if i < length (decision_list s) \<and> decision_list s ! i \<noteq> []
              then (\<exists>new. copy_row (head_row10 (dynamic s) (snd (hd (decision_list s ! i))) i)
                             (dynamic_k s ! k ! i ! 5) = Inr new \<and>
                          dcl ! k ! i = (dynamic_k s ! k ! i)[5 := new])
              else dcl ! k ! i = dynamic_k s ! k ! i"
    by (auto split: if_splits)
  show ?thesis unfolding s' using l r by (auto simp: copy_row_def split: if_splits)
qed

theorem row5_written_from_dynamic_list_witness:
  "update_decision_time 3 2 ex_after_tick1 = Inr ex_tick2_scheduled \<and>
   decision_list ex_after_tick1 ! 1 = [(111, 1), (112, 2)] \<and>
   head_row10 (dynamic ex_after_tick1) 1 1 = [11, 0, 0] \<and>
   dynamic_k ex_tick2_scheduled ! 4 ! 1 =
     (dynamic_k ex_after_tick1 ! 4 ! 1)[5 := [11, 0, 0]]"
proof -
  have k: "4 < length (dynamic_k ex_after_tick1)" by code_simp
  have v: "decision_list ex_after_tick1 ! 1 = [(111, 1), (112, 2)]"
    "head_row10 (dynamic ex_after_tick1) 1 1 = [11, 0, 0]"
    "length (dynamic_k ex_after_tick1 ! 4 ! 1 ! 5) = 3"
    "1 < length (decision_list ex_after_tick1)"
    by code_simp+
  from row5_written_from_dynamic_list [OF ex_tick2_scheduled k, of 1] v ex_tick2_scheduled
  show ?thesis by simp
qed

text \<open>
  C10 as stated fails when the source row is read as row 10 of the head agent's own tensor.
  After the first tick of the rollout with \<open>ex_update_fn\<close>, agent 1 heads the queue of
  instance 1 with time 111, and row 10 of its tensor is \<open>[111, 100, 100]\<close>; the
  extraction of the second tick leaves that row as it is and writes \<open>[11, 0, 0]\<close>, which
  is row 10 as \<open>update_od\<close> returned it before the agent acted, into row 5 of the tensors.
\<close>

theorem row5_not_from_current_tensor:
  "tick (ex_self 3 False ex_mask_start (Some ex_update_fn)) 2 3 ex_state0
     = Inr (False, ex_after_tick1) \<and>
   update_decision_time 3 2 ex_after_tick1 = Inr ex_tick2_scheduled \<and>
   hd (decision_list ex_after_tick1 ! 1) = (111, 1) \<and>
   dynamic_k ex_after_tick1 ! 0 ! 1 ! 10 = [111, 100, 100] \<and>
   dynamic_k ex_tick2_scheduled ! 0 ! 1 ! 10 = [111, 100, 100] \<and>
   dynamic_k ex_tick2_scheduled ! 0 ! 1 ! 5 = [11, 0, 0] \<and>
   dynamic_k ex_tick2_scheduled ! 1 ! 1 ! 5 = [11, 0, 0]"
proof -
  have "hd (decision_list ex_after_tick1 ! 1) = (111, 1)"
    "dynamic_k ex_after_tick1 ! 0 ! 1 ! 10 = [111, 100, 100]"
    "dynamic_k ex_tick2_scheduled ! 0 ! 1 ! 10 = [111, 100, 100]"
    "dynamic_k ex_tick2_scheduled ! 0 ! 1 ! 5 = [11, 0, 0]"
    "dynamic_k ex_tick2_scheduled ! 1 ! 1 ! 5 = [11, 0, 0]"
    by code_simp+
  with ex_after_tick1 ex_tick2_scheduled show ?thesis by simp
qed


section \<open>The rollout as a whole\<close>

lemma fold_err_invariant:
  assumes "fold_err f xs s = Inr s'" and "P s"
    and "\<And>x t t'. x \<in> set xs \<Longrightarrow> P t \<Longrightarrow> f x t = Inr t' \<Longrightarrow> P t'"
  shows "P s'"
  using assms
proof (induction xs arbitrary: s)
  case Nil
  then show ?case by simp
next
  case (Cons x xs)
  from Cons.prems(1) obtain s1 where 1: "f x s = Inr s1" and 2: "fold_err f xs s1 = Inr s'"
    by (auto split: sum.splits)
  from Cons.prems(3) [of x s s1] 1 Cons.prems(2) have "P s1" by simp
  show ?case
  proof (rule Cons.IH [OF 2 \<open>P s1\<close>])
    fix y t t' assume "y \<in> set xs" "P t" "f y t = Inr t'"
    then show "P t'" using Cons.prems(3) [of y t t'] by simp
  qed
qed

lemma refresh_mask_Inr:
  assumes "refresh_mask slf prune k s = Inr s'"
  shows "tour_idx s' = tour_idx s" "tour_logp s' = tour_logp s"
    "length (agent_mask_k s') = length (agent_mask_k s)"
    "\<And>j. j \<noteq> k - 1 \<Longrightarrow> agent_mask_k s' ! j = agent_mask_k s ! j"
    "decision_agent_id s' = decision_agent_id s \<or>
       (prune \<and> decision_agent_id s' = remove1 k (decision_agent_id s))"
  using assms unfolding refresh_mask_def
  by (auto elim!: bind_err_InrE split: if_split_asm option.split_asm prod.split_asm)

lemma agent_block_frame:
  assumes "agent_block slf bs n_up a_n s = Inr s'"
  shows "ncols s' a = ncols s a + (if a = a_n then 1 else 0)"
    "nlogp s' a = nlogp s a + (if a = a_n then 1 else 0)"
    "length (agent_mask_k s') = length (agent_mask_k s)"
    "\<And>j. j \<noteq> a_n - 1 \<Longrightarrow> agent_mask_k s' ! j = agent_mask_k s ! j"
    "decision_agent_id s' = decision_agent_id s"
  using assms by (auto elim!: agent_block_Inr simp: ncols_def nlogp_def)


lemma update_decision_time_frame:
  assumes "update_decision_time Agent_n batch_size s = Inr s'"
  shows "tour_idx s' = tour_idx s" "tour_logp s' = tour_logp s"
    "agent_mask_k s' = agent_mask_k s"
  using assms by (auto elim!: update_decision_time_Inr)

lemma run_update_od_frame:
  assumes "run_update_od slf s = Inr s'"
  shows "tour_idx s' = tour_idx s" "tour_logp s' = tour_logp s"
    "agent_mask_k s' = agent_mask_k s"
  using assms unfolding run_update_od_def
  by (auto split: option.split_asm prod.split_asm if_split_asm)

lemma refresh_fold_frame:
  assumes "fold_err (refresh_mask slf prune) ks s = Inr s'"
  shows "tour_idx s' = tour_idx s \<and> tour_logp s' = tour_logp s \<and>
         length (agent_mask_k s') = length (agent_mask_k s) \<and>
         (\<forall>j. (\<forall>k\<in>set ks. j \<noteq> k - 1) \<longrightarrow> agent_mask_k s' ! j = agent_mask_k s ! j) \<and>
         set (decision_agent_id s') \<subseteq> set (decision_agent_id s) \<and>
         (distinct (decision_agent_id s) \<longrightarrow> distinct (decision_agent_id s')) \<and>
         (\<not> prune \<longrightarrow> decision_agent_id s' = decision_agent_id s)"
proof (rule fold_err_invariant [OF assms])
  show "tour_idx s = tour_idx s \<and> tour_logp s = tour_logp s \<and>
         length (agent_mask_k s) = length (agent_mask_k s) \<and>
         (\<forall>j. (\<forall>k\<in>set ks. j \<noteq> k - 1) \<longrightarrow> agent_mask_k s ! j = agent_mask_k s ! j) \<and>
         set (decision_agent_id s) \<subseteq> set (decision_agent_id s) \<and>
         (distinct (decision_agent_id s) \<longrightarrow> distinct (decision_agent_id s)) \<and>
         (\<not> prune \<longrightarrow> decision_agent_id s = decision_agent_id s)" by simp
next
  fix k t t'
  assume k: "k \<in> set ks"
    and P: "tour_idx t = tour_idx s \<and> tour_logp t = tour_logp s \<and>
         length (agent_mask_k t) = length (agent_mask_k s) \<and>
         (\<forall>j. (\<forall>k\<in>set ks. j \<noteq> k - 1) \<longrightarrow> agent_mask_k t ! j = agent_mask_k s ! j) \<and>
         set (decision_agent_id t) \<subseteq> set (decision_agent_id s) \<and>
         (distinct (decision_agent_id s) \<longrightarrow> distinct (decision_agent_id t)) \<and>
         (\<not> prune \<longrightarrow> decision_agent_id t = decision_agent_id s)"
    and r: "refresh_mask slf prune k t = Inr t'"
  note f = refresh_mask_Inr [OF r]
  have "set (decision_agent_id t') \<subseteq> set (decision_agent_id t)"
    using f(5) set_remove1_subset by fastforce
  moreover have "distinct (decision_agent_id t) \<Longrightarrow> distinct (decision_agent_id t')"
    using f(5) by auto
  moreover have "\<not> prune \<Longrightarrow> decision_agent_id t' = decision_agent_id t"
    using f(5) by auto
  moreover have "\<And>j. (\<forall>k\<in>set ks. j \<noteq> k - 1) \<Longrightarrow> agent_mask_k t' ! j = agent_mask_k t ! j"
    using f(4) k by blast
  ultimately show "tour_idx t' = tour_idx s \<and> tour_logp t' = tour_logp s \<and>
         length (agent_mask_k t') = length (agent_mask_k s) \<and>
         (\<forall>j. (\<forall>k\<in>set ks. j \<noteq> k - 1) \<longrightarrow> agent_mask_k t' ! j = agent_mask_k s ! j) \<and>
         set (decision_agent_id t') \<subseteq> set (decision_agent_id s) \<and>
         (distinct (decision_agent_id s) \<longrightarrow> distinct (decision_agent_id t')) \<and>
         (\<not> prune \<longrightarrow> decision_agent_id t' = decision_agent_id s)"
    using P f(1,2,3) by auto
qed

lemma ncols_cong: "tour_idx s' = tour_idx s \<Longrightarrow> ncols s' a = ncols s a"
  and nlogp_cong: "tour_logp s' = tour_logp s \<Longrightarrow> nlogp s' a = nlogp s a"
  by (simp_all add: ncols_def nlogp_def)

lemma agent_turn_frame:
  assumes "agent_turn slf bs n_up a_n s = Inr s'"
  shows "ncols s' a = ncols s a + (if a = a_n \<and> 1 \<le> a_n \<and> a_n \<le> 10 then 1 else 0)"
    "nlogp s' a = nlogp s a + (if a = a_n \<and> 1 \<le> a_n \<and> a_n \<le> 10 then 1 else 0)"
    "decision_agent_id s' = decision_agent_id s"
    "length (agent_mask_k s') = length (agent_mask_k s)"
    "\<And>j. j \<noteq> a_n - 1 \<Longrightarrow> \<forall>k\<in>set (py_range (a_n + 1) (agent_number slf)). j \<noteq> k - 1
        \<Longrightarrow> agent_mask_k s' ! j = agent_mask_k s ! j"
proof -
  from assms obtain s1 where
    b: "(if 1 \<le> a_n \<and> a_n \<le> 10 then agent_block slf bs n_up a_n s else Inr s) = Inr s1"
    and r: "fold_err (refresh_mask slf False) (py_range (a_n + 1) (agent_number slf)) s1 = Inr s'"
    unfolding agent_turn_def by (elim bind_err_InrE)
  from refresh_fold_frame [OF r]
  have r1: "tour_idx s' = tour_idx s1" and r2: "tour_logp s' = tour_logp s1"
    and r3: "length (agent_mask_k s') = length (agent_mask_k s1)"
    and r4: "\<And>j. \<forall>k\<in>set (py_range (a_n + 1) (agent_number slf)). j \<noteq> k - 1
                \<Longrightarrow> agent_mask_k s' ! j = agent_mask_k s1 ! j"
    and r5: "decision_agent_id s' = decision_agent_id s1"
    by blast+
  have bc: "ncols s1 a = ncols s a + (if a = a_n \<and> 1 \<le> a_n \<and> a_n \<le> 10 then 1 else 0) \<and>
    nlogp s1 a = nlogp s a + (if a = a_n \<and> 1 \<le> a_n \<and> a_n \<le> 10 then 1 else 0) \<and>
    decision_agent_id s1 = decision_agent_id s \<and>
    length (agent_mask_k s1) = length (agent_mask_k s) \<and>
    (\<forall>j. j \<noteq> a_n - 1 \<longrightarrow> agent_mask_k s1 ! j = agent_mask_k s ! j)"
  proof (cases "1 \<le> a_n \<and> a_n \<le> 10")
    case True
    with b have ab: "agent_block slf bs n_up a_n s = Inr s1" by simp
    from agent_block_frame(1,2) [OF ab, where a = a] agent_block_frame(3,5) [OF ab]
      agent_block_frame(4) [OF ab] True
    show ?thesis by simp
  next
    case False
    with b have "s1 = s" by (auto split: if_split_asm)
    with False show ?thesis by auto
  qed
  then have b1: "ncols s1 a = ncols s a + (if a = a_n \<and> 1 \<le> a_n \<and> a_n \<le> 10 then 1 else 0)"
    and b2: "nlogp s1 a = nlogp s a + (if a = a_n \<and> 1 \<le> a_n \<and> a_n \<le> 10 then 1 else 0)"
    and b3: "decision_agent_id s1 = decision_agent_id s"
    and b4: "length (agent_mask_k s1) = length (agent_mask_k s)"
    and b5: "\<And>j. j \<noteq> a_n - 1 \<Longrightarrow> agent_mask_k s1 ! j = agent_mask_k s ! j"
    by blast+
  show "ncols s' a = ncols s a + (if a = a_n \<and> 1 \<le> a_n \<and> a_n \<le> 10 then 1 else 0)"
    using b1 ncols_cong [OF r1, of a] by simp
  show "nlogp s' a = nlogp s a + (if a = a_n \<and> 1 \<le> a_n \<and> a_n \<le> 10 then 1 else 0)"
    using b2 nlogp_cong [OF r2, of a] by simp
  show "decision_agent_id s' = decision_agent_id s" using r5 b3 by simp
  show "length (agent_mask_k s') = length (agent_mask_k s)" using r3 b4 by simp
  fix j assume "j \<noteq> a_n - 1" "\<forall>k\<in>set (py_range (a_n + 1) (agent_number slf)). j \<noteq> k - 1"
  then show "agent_mask_k s' ! j = agent_mask_k s ! j" using r4 [of j] b5 [of j] by simp
qed

lemma agent_loop_frame:
  assumes "fold_err (agent_turn slf bs n_up) ids s = Inr s'" and "distinct ids"
  shows "ncols s' a = ncols s a + (if a \<in> set ids \<and> 1 \<le> a \<and> a \<le> 10 then 1 else 0) \<and>
         nlogp s' a = nlogp s a + (if a \<in> set ids \<and> 1 \<le> a \<and> a \<le> 10 then 1 else 0) \<and>
         decision_agent_id s' = decision_agent_id s"
  using assms
proof (induction ids arbitrary: s)
  case Nil
  then show ?case by simp
next
  case (Cons x ids)
  from Cons.prems(1) obtain s1 where 1: "agent_turn slf bs n_up x s = Inr s1"
    and 2: "fold_err (agent_turn slf bs n_up) ids s1 = Inr s'"
    by (auto split: sum.splits)
  from Cons.prems(2) have d: "distinct ids" "x \<notin> set ids" by auto
  from Cons.IH [OF 2 d(1)] have ih:
    "ncols s' a = ncols s1 a + (if a \<in> set ids \<and> 1 \<le> a \<and> a \<le> 10 then 1 else 0)"
    "nlogp s' a = nlogp s1 a + (if a \<in> set ids \<and> 1 \<le> a \<and> a \<le> 10 then 1 else 0)"
    "decision_agent_id s' = decision_agent_id s1" by simp_all
  note t = agent_turn_frame(1,2) [OF 1, where a = a] agent_turn_frame(3) [OF 1]
  show ?case
  proof (cases "a = x")
    case True
    with ih t d(2) show ?thesis by simp
  next
    case False
    with ih t show ?thesis by simp
  qed
qed


lemma tick_Inr:
  assumes "tick slf bs n_up s = Inr (stop, s')"
  obtains s1 s2 mask_judge where
    "update_decision_time (agent_number slf) bs s = Inr s1"
    "run_update_od slf s1 = Inr s2"
    "mask_judge_x (agent_mask_k s2) = Inr mask_judge"
    "stop = (\<not> byte_any mask_judge)"
    "stop \<Longrightarrow> s' = s2\<lparr>decision_agent_id := py_range 1 (agent_number slf)\<rparr>"
    "\<not> stop \<Longrightarrow> \<exists>s3 s4.
        fold_err (refresh_mask slf True) (py_range 1 (agent_number slf))
          (s2\<lparr>decision_agent_id := py_range 1 (agent_number slf)\<rparr>) = Inr s3 \<and>
        fold_err (agent_turn slf bs n_up) (decision_agent_id s3) s3 = Inr s4 \<and>
        s' = s4\<lparr>decision_list := map (sort_key fst) (decision_list s4)\<rparr>"
proof -
  from assms obtain s1 s2 mj where
    1: "update_decision_time (agent_number slf) bs s = Inr s1"
    and 2: "run_update_od slf s1 = Inr s2"
    and 3: "mask_judge_x (agent_mask_k s2) = Inr mj"
    and 4: "(if \<not> byte_any mj
       then Inr (True, s2\<lparr>decision_agent_id := py_range 1 (agent_number slf)\<rparr>)
       else
         bind_err (fold_err (refresh_mask slf True) (py_range 1 (agent_number slf))
                     (s2\<lparr>decision_agent_id := py_range 1 (agent_number slf)\<rparr>)) (\<lambda>s3.
         bind_err (fold_err (agent_turn slf bs n_up) (decision_agent_id s3) s3) (\<lambda>s4.
           Inr (False, s4\<lparr>decision_list := map (sort_key fst) (decision_list s4)\<rparr>))))
       = Inr (stop, s')"
    unfolding tick_def by (elim bind_err_InrE)
  show thesis
  proof (cases "byte_any mj")
    case False
    with 4 have "stop" "s' = s2\<lparr>decision_agent_id := py_range 1 (agent_number slf)\<rparr>"
      by simp_all
    with that [OF 1 2 3] False show thesis by simp
  next
    case True
    with 4 obtain s3 s4 where
      "fold_err (refresh_mask slf True) (py_range 1 (agent_number slf))
          (s2\<lparr>decision_agent_id := py_range 1 (agent_number slf)\<rparr>) = Inr s3"
      "fold_err (agent_turn slf bs n_up) (decision_agent_id s3) s3 = Inr s4"
      "stop = False" "s' = s4\<lparr>decision_list := map (sort_key fst) (decision_list s4)\<rparr>"
      by (auto elim!: bind_err_InrE)
    with that [OF 1 2 3] True show thesis by blast
  qed
qed

lemma distinct_py_range [simp]: "distinct (py_range lo hi)"
  by (simp add: py_range_def)

lemma tick_columns:
  assumes "tick slf bs n_up s = Inr (stop, s')"
  shows "ncols s' a = ncols s a +
           (if \<not> stop \<and> a \<in> set (decision_agent_id s') \<and> 1 \<le> a \<and> a \<le> 10 then 1 else 0)"
    and "nlogp s' a = nlogp s a +
           (if \<not> stop \<and> a \<in> set (decision_agent_id s') \<and> 1 \<le> a \<and> a \<le> 10 then 1 else 0)"
    and "set (decision_agent_id s') \<subseteq> set (py_range 1 (agent_number slf))"
proof -
  from assms obtain s1 s2 mj where
    1: "update_decision_time (agent_number slf) bs s = Inr s1"
    and 2: "run_update_od slf s1 = Inr s2"
    and st: "stop \<Longrightarrow> s' = s2\<lparr>decision_agent_id := py_range 1 (agent_number slf)\<rparr>"
    and go: "\<not> stop \<Longrightarrow> \<exists>s3 s4.
        fold_err (refresh_mask slf True) (py_range 1 (agent_number slf))
          (s2\<lparr>decision_agent_id := py_range 1 (agent_number slf)\<rparr>) = Inr s3 \<and>
        fold_err (agent_turn slf bs n_up) (decision_agent_id s3) s3 = Inr s4 \<and>
        s' = s4\<lparr>decision_list := map (sort_key fst) (decision_list s4)\<rparr>"
    by (elim tick_Inr) blast
  have n2: "ncols s2 a = ncols s a" "nlogp s2 a = nlogp s a"
    using update_decision_time_frame(1,2) [OF 1] run_update_od_frame(1,2) [OF 2]
    by (simp_all add: ncols_def nlogp_def)
  have "ncols s' a = ncols s a +
           (if \<not> stop \<and> a \<in> set (decision_agent_id s') \<and> 1 \<le> a \<and> a \<le> 10 then 1 else 0) \<and>
        nlogp s' a = nlogp s a +
           (if \<not> stop \<and> a \<in> set (decision_agent_id s') \<and> 1 \<le> a \<and> a \<le> 10 then 1 else 0) \<and>
        set (decision_agent_id s') \<subseteq> set (py_range 1 (agent_number slf))"
  proof (cases stop)
    case True
    with st n2 show ?thesis by (simp add: ncols_def nlogp_def)
  next
    case False
    with go obtain s3 s4 where
      3: "fold_err (refresh_mask slf True) (py_range 1 (agent_number slf))
          (s2\<lparr>decision_agent_id := py_range 1 (agent_number slf)\<rparr>) = Inr s3"
      and 4: "fold_err (agent_turn slf bs n_up) (decision_agent_id s3) s3 = Inr s4"
      and 5: "s' = s4\<lparr>decision_list := map (sort_key fst) (decision_list s4)\<rparr>"
      by blast
    from refresh_fold_frame [OF 3]
    have r: "tour_idx s3 = tour_idx s2" "tour_logp s3 = tour_logp s2"
      "set (decision_agent_id s3) \<subseteq> set (py_range 1 (agent_number slf))"
      "distinct (decision_agent_id s3)"
      by simp_all
    from agent_loop_frame [OF 4 r(4), of a]
    have l: "ncols s4 a = ncols s3 a +
             (if a \<in> set (decision_agent_id s3) \<and> 1 \<le> a \<and> a \<le> 10 then 1 else 0)"
      "nlogp s4 a = nlogp s3 a +
             (if a \<in> set (decision_agent_id s3) \<and> 1 \<le> a \<and> a \<le> 10 then 1 else 0)"
      "decision_agent_id s4 = decision_agent_id s3" by simp_all
    have "ncols s3 a = ncols s a" "nlogp s3 a = nlogp s a"
      using r(1,2) n2 by (simp_all add: ncols_def nlogp_def)
    with l r(3) 5 False show ?thesis by (simp add: ncols_def nlogp_def)
  qed
  then show "ncols s' a = ncols s a +
           (if \<not> stop \<and> a \<in> set (decision_agent_id s') \<and> 1 \<le> a \<and> a \<le> 10 then 1 else 0)"
    and "nlogp s' a = nlogp s a +
           (if \<not> stop \<and> a \<in> set (decision_agent_id s') \<and> 1 \<le> a \<and> a \<le> 10 then 1 else 0)"
    and "set (decision_agent_id s') \<subseteq> set (py_range 1 (agent_number slf))"
    by blast+
qed

lemma run_ticks_columns:
  assumes "run_ticks slf bs n_up n s = Inr s'" and "1 \<le> a" "a \<le> 10"
  shows "ncols s' a = ncols s a + length (filter (acted a) (tick_states slf bs n_up n s)) \<and>
         nlogp s' a = nlogp s a + length (filter (acted a) (tick_states slf bs n_up n s))"
  using assms(1)
proof (induction n arbitrary: s)
  case 0
  then show ?case by simp
next
  case (Suc n)
  from Suc.prems obtain stop s1 where t: "tick slf bs n_up s = Inr (stop, s1)"
    and r: "if stop then s' = s1 else run_ticks slf bs n_up n s1 = Inr s'"
    by (auto split: sum.splits prod.splits if_splits)
  note c = tick_columns(1,2) [OF t, of a]
  show ?case
  proof (cases stop)
    case True
    with r t c show ?thesis by simp
  next
    case False
    with r have "run_ticks slf bs n_up n s1 = Inr s'" by simp
    from Suc.IH [OF this] c t False assms(2,3) show ?thesis by (simp add: acted_def)
  qed
qed

lemma init_state_columns:
  assumes "init_state Agent_n bs seq n_up n_all dyn_in rec_in = Inr s0"
  shows "ncols s0 a = 0" "nlogp s0 a = 0"
    "agent_mask_k s0 = replicate 10 (replicate bs (init_agent_mask_row seq))"
  using assms unfolding init_state_def
  by (auto elim!: bind_err_InrE simp: ncols_def nlogp_def fill_dict_apply split: if_split_asm)

lemma cat_dim1_Inr:
  "cat_dim1 bs cols = Inr rows \<longleftrightarrow>
     cols \<noteq> [] \<and> rows = map (\<lambda>i. map (\<lambda>c. c ! i) cols) [0..<bs]"
  by (auto simp: cat_dim1_def)

lemma cat_agent_Inr:
  assumes "cat_agent bs s a (ti, tlp) = Inr (ti', tlp')"
  shows "\<exists>cols lcols. tour_idx s a = Some cols \<and> tour_logp s a = Some lcols \<and>
           ti' = ti(a \<mapsto> map (\<lambda>i. map (\<lambda>c. c ! i) cols) [0..<bs]) \<and>
           tlp' = tlp(a \<mapsto> map (\<lambda>i. map (\<lambda>c. c ! i) lcols) [0..<bs])"
  using assms unfolding cat_agent_def
  by (auto elim!: bind_err_InrE simp: cat_dim1_Inr split: option.split_asm)

lemma cat_fold:
  assumes "fold_err (cat_agent bs s) ids (ti, tlp) = Inr (ti', tlp')"
  shows "dom ti' = dom ti \<union> set ids \<and> dom tlp' = dom tlp \<union> set ids \<and>
         (catted bs s (ti, tlp) \<longrightarrow> catted bs s (ti', tlp'))"
  using assms
proof (induction ids arbitrary: ti tlp)
  case Nil
  then show ?case by simp
next
  case (Cons a ids)
  from Cons.prems obtain m1 where 1: "cat_agent bs s a (ti, tlp) = Inr m1"
    and 2: "fold_err (cat_agent bs s) ids m1 = Inr (ti', tlp')"
    by (auto split: sum.splits)
  obtain ti1 tlp1 where m1: "m1 = (ti1, tlp1)" by (cases m1)
  from cat_agent_Inr [OF 1 [unfolded m1]] obtain cols lcols where
    c: "tour_idx s a = Some cols" "tour_logp s a = Some lcols"
    "ti1 = ti(a \<mapsto> map (\<lambda>i. map (\<lambda>c. c ! i) cols) [0..<bs])"
    "tlp1 = tlp(a \<mapsto> map (\<lambda>i. map (\<lambda>c. c ! i) lcols) [0..<bs])"
    by blast
  have step: "catted bs s (ti, tlp) \<Longrightarrow> catted bs s (ti1, tlp1)"
    using c unfolding catted_def by (auto simp: ncols_def nlogp_def)
  from Cons.IH [OF 2 [unfolded m1]]
  have ih: "dom ti' = dom ti1 \<union> set ids" "dom tlp' = dom tlp1 \<union> set ids"
    "catted bs s (ti1, tlp1) \<Longrightarrow> catted bs s (ti', tlp')" by blast+
  have "dom ti' = dom ti \<union> set (a # ids)" "dom tlp' = dom tlp \<union> set (a # ids)"
    using ih(1,2) c(3,4) by auto
  with ih(3) step show ?case by blast
qed

lemma finish_Inr:
  assumes "finish Agent_n bs s = Inr r"
  shows "dom (out_tour_idx r) = set (py_range 1 Agent_n)"
    "dom (out_tour_logp r) = set (py_range 1 Agent_n)"
    "catted bs s (out_tour_idx r, out_tour_logp r)"
proof -
  from assms obtain ti tlp where
    f: "fold_err (cat_agent bs s) (py_range 1 Agent_n) (Map.empty, Map.empty) = Inr (ti, tlp)"
    and r: "r = \<lparr>out_tour_idx = ti, out_tour_logp = tlp,
                         out_record = record_k s, out_dynamic = dynamic_k s\<rparr>"
    unfolding finish_def by (auto elim!: bind_err_InrE)
  have "catted bs s (Map.empty, Map.empty)" by (simp add: catted_def)
  with cat_fold [OF f] r show "dom (out_tour_idx r) = set (py_range 1 Agent_n)"
    "dom (out_tour_logp r) = set (py_range 1 Agent_n)"
    "catted bs s (out_tour_idx r, out_tour_logp r)" by simp_all
qed

lemma forward_Inr:
  assumes "forward slf bs seq n_up n_all dyn_in rec_in = Inr r"
  obtains s0 s where
    "init_state (agent_number slf) bs seq n_up n_all dyn_in rec_in = Inr s0"
    "run_ticks slf bs n_up (max_steps slf seq) s0 = Inr s"
    "finish (agent_number slf) bs s = Inr r"
  using assms unfolding forward_def by (elim bind_err_InrE)

lemma set_py_range: "set (py_range lo n) = {a. lo \<le> a \<and> int a < n}"
  by (auto simp: py_range_def)

lemma ex_result:
  "forward (ex_self 3 False ex_mask_start None) 2 3 3 3 ex_dynamics ex_records = Inr ex_result"
proof -
  have "isl (forward (ex_self 3 False ex_mask_start None) 2 3 3 3 ex_dynamics ex_records) = False"
    by code_simp
  then show ?thesis
    by (cases "forward (ex_self 3 False ex_mask_start None) 2 3 3 3 ex_dynamics ex_records")
       (simp_all add: ex_result_def)
qed

lemma ex_pruned_result:
  "forward (ex_self 3 False ex_pruning_mask_start None) 2 3 3 3 ex_dynamics ex_records
     = Inr ex_pruned_result"
proof -
  have "isl (forward (ex_self 3 False ex_pruning_mask_start None) 2 3 3 3
               ex_dynamics ex_records) = False"
    by code_simp
  then show ?thesis
    by (cases "forward (ex_self 3 False ex_pruning_mask_start None) 2 3 3 3
                 ex_dynamics ex_records")
       (simp_all add: ex_pruned_result_def)
qed

text \<open>
  C4, as the code has it. Whenever \<open>forward\<close> returns, the ids for which it returns an
  index sequence and a log-probability sequence are those of \<open>range(1, Agent_n)\<close>:
  1 up to \<open>Agent_n - 1\<close>. There is no sequence for the id \<open>Agent_n\<close> itself.
\<close>

theorem returned_agent_ids:
  assumes "forward slf batch_size sequence_size n_up n_all dyn_in rec_in = Inr r"
  shows "dom (out_tour_idx r) = {a. 1 \<le> a \<and> int a < agent_number slf} \<and>
         dom (out_tour_logp r) = {a. 1 \<le> a \<and> int a < agent_number slf}"
proof -
  from assms obtain s where "finish (agent_number slf) batch_size s = Inr r"
    by (elim forward_Inr)
  from finish_Inr(1,2) [OF this] show ?thesis by (simp only: set_py_range)
qed

theorem returned_agent_ids_witness:
  "forward (ex_self 3 False ex_mask_start None) 2 3 3 3 ex_dynamics ex_records = Inr ex_result \<and>
   agent_number (ex_self 3 False ex_mask_start None) = 3 \<and>
   out_tour_idx ex_result 1 = Some [[1, 0, 1], [1, 1, 1]] \<and>
   out_tour_idx ex_result 2 = Some [[0, 1, 0], [1, 0, 0]] \<and>
   out_tour_idx ex_result 3 = None \<and> out_tour_logp ex_result 3 = None"
proof -
  have a: "agent_number (ex_self 3 False ex_mask_start None) = 3" by (simp add: ex_self_def)
  have v: "out_tour_idx ex_result 1 = Some [[1, 0, 1], [1, 1, 1]]"
    "out_tour_idx ex_result 2 = Some [[0, 1, 0], [1, 0, 0]]"
    by code_simp+
  from returned_agent_ids [OF ex_result] a
  have "3 \<notin> dom (out_tour_idx ex_result)" "3 \<notin> dom (out_tour_logp ex_result)"
    by simp_all
  then have "out_tour_idx ex_result 3 = None" "out_tour_logp ex_result 3 = None"
    by (simp_all add: domIff)
  with ex_result a v show ?thesis by simp
qed

text \<open>
  C2, as the code has it. Whenever \<open>forward\<close> returns (with at most the ten agents it
  has blocks for), the index sequence and the log-probability sequence of an agent have
  one row for each instance, and every row has one entry for each pass of the tick loop
  that ran to its end with the agent's id in \<open>decision_agent_id\<close>, the list that
  \<open>for a_n in decision_agent_id\<close> (line 506) runs through. The number is the same for
  every instance; no scheduling indicator enters it.
\<close>

theorem tour_length_counts_acting_ticks:
  assumes fw: "forward slf batch_size sequence_size n_up n_all dyn_in rec_in = Inr r"
    and cap: "agent_number slf \<le> 11"
    and init: "init_state (agent_number slf) batch_size sequence_size n_up n_all dyn_in rec_in
                 = Inr s0"
    and rows: "out_tour_idx r a = Some rows" "out_tour_logp r a = Some lrows"
  shows "length rows = batch_size \<and> length lrows = batch_size \<and>
         (\<forall>row\<in>set rows. length row =
            length (filter (acted a)
              (tick_states slf batch_size n_up (max_steps slf sequence_size) s0))) \<and>
         (\<forall>row\<in>set lrows. length row =
            length (filter (acted a)
              (tick_states slf batch_size n_up (max_steps slf sequence_size) s0)))"
proof -
  from fw init obtain s where
    run: "run_ticks slf batch_size n_up (max_steps slf sequence_size) s0 = Inr s"
    and fin: "finish (agent_number slf) batch_size s = Inr r"
    by (elim forward_Inr) simp
  from rows(1) finish_Inr(1) [OF fin] have "a \<in> set (py_range 1 (agent_number slf))"
    by (auto simp: domIff)
  with cap have a: "1 \<le> a" "a \<le> 10" unfolding set_py_range by auto
  from run_ticks_columns [OF run a] init_state_columns(1,2) [OF init, of a]
  have n: "ncols s a = length (filter (acted a)
              (tick_states slf batch_size n_up (max_steps slf sequence_size) s0))"
    "nlogp s a = length (filter (acted a)
              (tick_states slf batch_size n_up (max_steps slf sequence_size) s0))"
    by simp_all
  from finish_Inr(3) [OF fin] rows n show ?thesis
    unfolding catted_def by auto
qed

theorem tour_length_counts_acting_ticks_witness:
  "forward (ex_self 3 False ex_pruning_mask_start None) 2 3 3 3 ex_dynamics ex_records
     = Inr ex_pruned_result \<and>
   init_state 3 2 3 3 3 ex_dynamics ex_records = Inr ex_state0 \<and>
   out_tour_idx ex_pruned_result 2 = Some [[1, 0], [0, 0]] \<and>
   out_tour_logp ex_pruned_result 2 = Some [[- 1 / 2, - 1 / 2], [- 1 / 2, - 1 / 2]] \<and>
   length (tick_states (ex_self 3 False ex_pruning_mask_start None) 2 3
      (max_steps (ex_self 3 False ex_pruning_mask_start None) 3) ex_state0) = 3 \<and>
   length (filter (acted 2) (tick_states (ex_self 3 False ex_pruning_mask_start None) 2 3
      (max_steps (ex_self 3 False ex_pruning_mask_start None) 3) ex_state0)) = 2"
proof -
  have a: "agent_number (ex_self 3 False ex_pruning_mask_start None) = 3"
    by (simp add: ex_self_def)
  have v: "out_tour_idx ex_pruned_result 2 = Some [[1, 0], [0, 0]]"
    "out_tour_logp ex_pruned_result 2 = Some [[- 1 / 2, - 1 / 2], [- 1 / 2, - 1 / 2]]"
    by code_simp+
  have l: "length (tick_states (ex_self 3 False ex_pruning_mask_start None) 2 3
      (max_steps (ex_self 3 False ex_pruning_mask_start None) 3) ex_state0) = 3"
    by code_simp
  from tour_length_counts_acting_ticks [OF ex_pruned_result _ _ v, of ex_state0] a
    init_state_example
  have "length [1, 0::int] = length (filter (acted 2)
     (tick_states (ex_self 3 False ex_pruning_mask_start None) 2 3
      (max_steps (ex_self 3 False ex_pruning_mask_start None) 3) ex_state0))"
    by simp
  with ex_pruned_result init_state_example v l show ?thesis by simp
qed

text \<open>
  C2 as stated fails. In the concrete rollout agent 2 is scheduled in instance 0 in the
  second of the three ticks only (indicators 0, 1, 0), yet both of its sequences for
  instance 0 have three entries, the number of ticks executed.
\<close>

theorem tour_length_is_not_indicator_count:
  "forward (ex_self 3 False ex_mask_start None) 2 3 3 3 ex_dynamics ex_records = Inr ex_result \<and>
   out_tour_idx ex_result 2 = Some [[0, 1, 0], [1, 0, 0]] \<and>
   out_tour_logp ex_result 2 = Some [[- 1 / 2, - 1 / 2, - 1 / 2], [- 1 / 2, - 1 / 2, - 1 / 2]] \<and>
   length (tick_states (ex_self 3 False ex_mask_start None) 2 3 3 ex_state0) = 3 \<and>
   decision_mask_dict (tick_states (ex_self 3 False ex_mask_start None) 2 3 3 ex_state0 ! 0) 2
     = Some [0, 1] \<and>
   decision_mask_dict (tick_states (ex_self 3 False ex_mask_start None) 2 3 3 ex_state0 ! 1) 2
     = Some [1, 0] \<and>
   decision_mask_dict (tick_states (ex_self 3 False ex_mask_start None) 2 3 3 ex_state0 ! 2) 2
     = Some [0, 0]"
proof -
  have "out_tour_idx ex_result 2 = Some [[0, 1, 0], [1, 0, 0]]"
   "out_tour_logp ex_result 2 = Some [[- 1 / 2, - 1 / 2, - 1 / 2], [- 1 / 2, - 1 / 2, - 1 / 2]]"
   "length (tick_states (ex_self 3 False ex_mask_start None) 2 3 3 ex_state0) = 3"
   "decision_mask_dict (tick_states (ex_self 3 False ex_mask_start None) 2 3 3 ex_state0 ! 0) 2
     = Some [0, 1]"
   "decision_mask_dict (tick_states (ex_self 3 False ex_mask_start None) 2 3 3 ex_state0 ! 1) 2
     = Some [1, 0]"
   "decision_mask_dict (tick_states (ex_self 3 False ex_mask_start None) 2 3 3 ex_state0 ! 2) 2
     = Some [0, 0]"
    by code_simp+
  with ex_result show ?thesis by simp
qed

section \<open>The termination test\<close>













end
